theory Spec2Isabelle
  imports Main "HOL-Library.AList"
begin

section \<open>The parsed file, as the detector and the fixer read it\<close>

text \<open>
  The tool works on the syntax tree that \<^verbatim>\<open>go/parser\<close> returns and on the bytes of the
  file. Of the tree only the parts that the detector and the fixer inspect are kept.
  A \<^verbatim>\<open>token.Pos\<close> is represented by the byte offset that
  \<^verbatim>\<open>fset.Position(p).Offset\<close> yields for it, so positions and offsets are the same
  integers. Source bytes and Go strings are both \<open>string\<close> (lists of \<open>char\<close>).
\<close>

text \<open>Receiver type expressions: the node kinds \<^verbatim>\<open>GetReceiverTypeName\<close> can meet.\<close>

datatype expr =
    Ident string
  | StarExpr expr
  | IndexExpr expr expr
  | IndexListExpr expr "expr list"
  | BasicLit

text \<open>\<^verbatim>\<open>ast.CommentGroup\<close>: the position of its first comment, which is what its
  \<^verbatim>\<open>Pos()\<close> returns, and the texts of its comments.\<close>

record CommentGroup =
  cg_Pos :: int
  cg_List :: "string list"

text \<open>\<^verbatim>\<open>ast.FuncDecl\<close>: name, receiver field list (the types of its fields), extent and doc
  comment (\<^verbatim>\<open>fn.Doc\<close>, \<open>None\<close> when it is nil).\<close>

record FuncDecl =
  fd_Name :: string
  fd_Recv :: "expr list option"
  fd_Pos :: int
  fd_End :: int
  fd_Doc :: "CommentGroup option"

text \<open>A spec of a general declaration: a type spec carries its name, whether its type is
  a struct type, and its extent; every other spec is irrelevant.\<close>

datatype spec = TypeSpec string bool int int | OtherSpec

datatype decl = GenDecl "spec list" | FuncDeclD FuncDecl

type_synonym File = "decl list"

subsection \<open>structholder.go\<close>

record MethodInfo =
  mi_FuncDecl :: FuncDecl
  mi_Name :: string
  mi_IsExported :: bool
  mi_IsConstructor :: bool
  mi_ReceiverType :: string
  mi_Pos :: int
  mi_End :: int
  mi_DocComment :: "CommentGroup option"

record StructMethods =
  sm_StructName :: string
  sm_StructPos :: int
  sm_StructEnd :: int
  sm_Methods :: "MethodInfo list"
  sm_Constructors :: "MethodInfo list"
  sm_ExportedMethods :: "MethodInfo list"
  sm_UnexportedMethods :: "MethodInfo list"

text \<open>The type switch of \<^verbatim>\<open>GetReceiverTypeName\<close>: an identifier, a star over an
  identifier, an index expression over an identifier; everything else falls through to
  the empty string.\<close>

fun GetReceiverTypeName :: "expr \<Rightarrow> string" where
  "GetReceiverTypeName (Ident n) = n"
| "GetReceiverTypeName (StarExpr x) = (case x of Ident n \<Rightarrow> n | _ \<Rightarrow> [])"
| "GetReceiverTypeName (IndexExpr x i) = (case x of Ident n \<Rightarrow> n | _ \<Rightarrow> [])"
| "GetReceiverTypeName _ = []"

text \<open>\<^verbatim>\<open>strings.HasPrefix\<close>.\<close>

definition HasPrefix :: "string \<Rightarrow> string \<Rightarrow> bool" where
  "HasPrefix s p = (length p \<le> length s \<and> take (length p) s = p)"

definition isConstructor :: "string \<Rightarrow> bool" where
  "isConstructor name =
     (HasPrefix name ''New'' \<or> HasPrefix name ''Must'' \<or> HasPrefix name ''Or'')"

text \<open>
  \<^verbatim>\<open>ast.IsExported\<close>: the first rune of the name is an upper-case letter
  (\<^verbatim>\<open>unicode.IsUpper\<close>). A name is a list of bytes here. When its first byte is an ASCII
  character, that byte is the first rune, and it is upper case exactly when it is one of
  \<^verbatim>\<open>A\<close> to \<^verbatim>\<open>Z\<close>. When the first byte starts a longer UTF-8 sequence, the answer is that of
  the Unicode tables, which are not modelled: the value is left open, so that nothing is
  stated about such names.
\<close>

definition IsExported :: "string \<Rightarrow> bool" where
  "IsExported name =
     (case name of [] \<Rightarrow> False
      | c # _ \<Rightarrow>
          if (of_char c :: nat) < 128 then (65::nat) \<le> of_char c \<and> (of_char c :: nat) \<le> 90
          else undefined name)"

definition newMethodInfo :: "FuncDecl \<Rightarrow> MethodInfo" where
  "newMethodInfo fn =
     \<lparr> mi_FuncDecl = fn,
       mi_Name = fd_Name fn,
       mi_IsExported = IsExported (fd_Name fn),
       mi_IsConstructor = isConstructor (fd_Name fn),
       mi_ReceiverType =
         (case fd_Recv fn of
            Some (t # _) \<Rightarrow> GetReceiverTypeName t
          | _ \<Rightarrow> []),
       mi_Pos = fd_Pos fn,
       mi_End = fd_End fn,
       mi_DocComment = fd_Doc fn \<rparr>"

text \<open>One iteration of the loop of \<^verbatim>\<open>CategorizeMethods\<close>, and the loop.\<close>

definition categorize_step :: "StructMethods \<Rightarrow> MethodInfo \<Rightarrow> StructMethods" where
  "categorize_step sm m =
     (if mi_IsConstructor m then sm\<lparr>sm_Constructors := sm_Constructors sm @ [m]\<rparr>
      else if mi_IsExported m then sm\<lparr>sm_ExportedMethods := sm_ExportedMethods sm @ [m]\<rparr>
      else sm\<lparr>sm_UnexportedMethods := sm_UnexportedMethods sm @ [m]\<rparr>)"

definition CategorizeMethods :: "StructMethods \<Rightarrow> StructMethods" where
  "CategorizeMethods sm = foldl categorize_step sm (sm_Methods sm)"

definition GetExpectedOrder :: "StructMethods \<Rightarrow> MethodInfo list" where
  "GetExpectedOrder sm = sm_Constructors sm @ sm_ExportedMethods sm @ sm_UnexportedMethods sm"

definition GetCurrentOrder :: "StructMethods \<Rightarrow> MethodInfo list" where
  "GetCurrentOrder sm = sm_Methods sm"

text \<open>\<^verbatim>\<open>NeedsReordering\<close>: after the two guards the loop returns true at the first index
  where the names differ; the lists have the same length there.\<close>

definition NeedsReordering :: "StructMethods \<Rightarrow> bool" where
  "NeedsReordering sm =
     (if length (sm_Methods sm) \<le> 1 then False
      else if length (GetCurrentOrder sm) \<noteq> length (GetExpectedOrder sm) then False
      else list_ex (\<lambda>(c, e). mi_Name c \<noteq> mi_Name e)
             (zip (GetCurrentOrder sm) (GetExpectedOrder sm)))"

subsection \<open>reorder.go: the splice primitive\<close>

text \<open>
  \<^verbatim>\<open>spliceBytes\<close> slices \<^verbatim>\<open>src[:start]\<close> and \<^verbatim>\<open>src[end:]\<close>; a panic is the value \<open>None\<close>.
  Go panics when a bound is negative, when \<^verbatim>\<open>end\<close> is beyond the length of the buffer, and
  when \<^verbatim>\<open>start\<close> is beyond its capacity. A buffer is a list of bytes here, with no spare
  capacity behind its length, so the model panics for every \<^verbatim>\<open>start\<close> beyond the length.
  This is what Go does for \<^verbatim>\<open>0 <= start <= len(src)\<close>, where the contract of the splice is
  stated and where every replacement of a parsed file lies; for a \<^verbatim>\<open>start\<close> between the
  length and a larger capacity Go returns bytes of the backing array instead, which is
  not modelled. An inverted but in-range pair does not panic.
\<close>

definition spliceBytes :: "string \<Rightarrow> int \<Rightarrow> int \<Rightarrow> string \<Rightarrow> string option" where
  "spliceBytes src start endp replacement =
     (if 0 \<le> start \<and> start \<le> int (length src) \<and> 0 \<le> endp \<and> endp \<le> int (length src)
      then Some (take (nat start) src @ replacement @ drop (nat endp) src)
      else None)"


subsection \<open>config.go and reports.go\<close>

record Config =
  Fix :: bool
  Write :: bool
  Diff :: bool
  ListOnly :: bool
  Verbose :: bool
  CheckConstructor :: bool
  CheckExported :: bool

datatype ViolationType = ViolationConstructor | ViolationExported

record SuggestedFix =
  sf_TargetPos :: int
  sf_TargetName :: string

text \<open>A violation. \<^verbatim>\<open>Position\<close> is the line and column of \<^verbatim>\<open>MethodPos\<close>; it is
  represented by the same offset.\<close>

record Violation =
  v_Type :: ViolationType
  v_Position :: int
  v_MethodPos :: int
  v_StructName :: string
  v_MethodName :: string
  v_Message :: string
  v_SuggestedFix :: SuggestedFix

record Report =
  rp_FilePath :: string
  rp_Violations :: "Violation list"

definition HasViolations :: "Report \<Rightarrow> bool" where
  "HasViolations r = (length (rp_Violations r) > 0)"

definition AddViolation :: "Report \<Rightarrow> Violation \<Rightarrow> Report" where
  "AddViolation r v = r\<lparr>rp_Violations := rp_Violations r @ [v]\<rparr>"

definition newViolation ::
  "ViolationType \<Rightarrow> FuncDecl \<Rightarrow> string \<Rightarrow> string \<Rightarrow> SuggestedFix \<Rightarrow> Violation" where
  "newViolation vtype method structName message suggestedFix =
     \<lparr> v_Type = vtype,
       v_Position = fd_Pos method,
       v_MethodPos = fd_Pos method,
       v_StructName = structName,
       v_MethodName = fd_Name method,
       v_Message = message,
       v_SuggestedFix = suggestedFix \<rparr>"

subsection \<open>detector.go\<close>

text \<open>
  \<^verbatim>\<open>collectStructMethods\<close> fills a Go map from struct names to groups. The map is an
  association list here, a new key going to the end, and a loop over the map visits it in
  that order (Go leaves the order open). \<^verbatim>\<open>sort.Slice\<close> is the insertion sort
  \<open>sort_key\<close> (Go leaves the order of equal keys open).
\<close>

type_synonym structs = "(string \<times> StructMethods) list"

fun collect_specs :: "spec list \<Rightarrow> structs \<Rightarrow> structs" where
  "collect_specs [] st = st"
| "collect_specs (TypeSpec name isStruct p e # specs) st =
     collect_specs specs
       (if isStruct
        then AList.update name
               \<lparr> sm_StructName = name, sm_StructPos = p, sm_StructEnd = e,
                 sm_Methods = [], sm_Constructors = [], sm_ExportedMethods = [],
                 sm_UnexportedMethods = [] \<rparr> st
        else st)"
| "collect_specs (OtherSpec # specs) st = collect_specs specs st"

fun collect_types :: "decl list \<Rightarrow> structs \<Rightarrow> structs" where
  "collect_types [] st = st"
| "collect_types (GenDecl specs # ds) st = collect_types ds (collect_specs specs st)"
| "collect_types (FuncDeclD fn # ds) st = collect_types ds st"

definition attach_method :: "FuncDecl \<Rightarrow> structs \<Rightarrow> structs" where
  "attach_method fn st =
     (case fd_Recv fn of
        Some (t # _) \<Rightarrow>
          (case map_of st (GetReceiverTypeName t) of
             Some sm \<Rightarrow>
               AList.update (GetReceiverTypeName t)
                 (sm\<lparr>sm_Methods := sm_Methods sm @ [newMethodInfo fn]\<rparr>) st
           | None \<Rightarrow> st)
      | _ \<Rightarrow> st)"

fun collect_methods :: "decl list \<Rightarrow> structs \<Rightarrow> structs" where
  "collect_methods [] st = st"
| "collect_methods (FuncDeclD fn # ds) st = collect_methods ds (attach_method fn st)"
| "collect_methods (GenDecl specs # ds) st = collect_methods ds st"

definition sort_and_categorize :: "StructMethods \<Rightarrow> StructMethods" where
  "sort_and_categorize sm =
     CategorizeMethods (sm\<lparr>sm_Methods := sort_key mi_Pos (sm_Methods sm)\<rparr>)"

definition collectStructMethods :: "File \<Rightarrow> structs" where
  "collectStructMethods file =
     map (\<lambda>(name, sm). (name, sort_and_categorize sm))
       (collect_methods file (collect_types file []))"

definition CollectStructMethods :: "File \<Rightarrow> structs" where
  "CollectStructMethods file = collectStructMethods file"

text \<open>The inner loops of the two checks leave at the first match (\<^verbatim>\<open>break\<close>), which is
  \<open>find\<close>.\<close>

definition constructor_step :: "StructMethods \<Rightarrow> Report \<Rightarrow> MethodInfo \<Rightarrow> Report" where
  "constructor_step sm report constructor =
     (case find (\<lambda>exported. mi_Pos exported < mi_Pos constructor) (sm_ExportedMethods sm) of
        None \<Rightarrow> report
      | Some exported \<Rightarrow>
          AddViolation report
            (newViolation ViolationConstructor (mi_FuncDecl constructor) (sm_StructName sm)
               (''constructor '' @ mi_Name constructor
                  @ '' should appear before exported method '' @ mi_Name exported)
               \<lparr> sf_TargetPos = mi_Pos exported, sf_TargetName = mi_Name exported \<rparr>))"

definition checkConstructorOrdering :: "StructMethods \<Rightarrow> Report \<Rightarrow> Report" where
  "checkConstructorOrdering sm report =
     (if length (sm_Constructors sm) = 0 then report
      else foldl (constructor_step sm) report (sm_Constructors sm))"

definition exported_step :: "StructMethods \<Rightarrow> Report \<Rightarrow> MethodInfo \<Rightarrow> Report" where
  "exported_step sm report unexported =
     (case find (\<lambda>exported. mi_Pos exported > mi_Pos unexported) (sm_ExportedMethods sm) of
        None \<Rightarrow> report
      | Some exported \<Rightarrow>
          AddViolation report
            (newViolation ViolationExported (mi_FuncDecl unexported) (sm_StructName sm)
               (''unexported method '' @ mi_Name unexported
                  @ '' should appear after exported method '' @ mi_Name exported)
               \<lparr> sf_TargetPos = mi_End exported, sf_TargetName = mi_Name exported \<rparr>))"

definition checkExportedOrdering :: "StructMethods \<Rightarrow> Report \<Rightarrow> Report" where
  "checkExportedOrdering sm report = foldl (exported_step sm) report (sm_UnexportedMethods sm)"

definition checkStructMethods :: "Config \<Rightarrow> StructMethods \<Rightarrow> Report \<Rightarrow> Report" where
  "checkStructMethods cfg sm report =
     (if length (sm_Methods sm) \<le> 1 then report
      else
        let report = (if CheckConstructor cfg then checkConstructorOrdering sm report
                      else report)
        in (if CheckExported cfg then checkExportedOrdering sm report else report))"

definition Detect :: "Config \<Rightarrow> File \<Rightarrow> string \<Rightarrow> Report" where
  "Detect cfg file filePath =
     (let report = \<lparr> rp_FilePath = filePath, rp_Violations = [] \<rparr>;
          structs = CollectStructMethods file;
          report = foldl (\<lambda>r (name, sm). checkStructMethods cfg sm r) report structs
      in report\<lparr>rp_Violations := sort_key v_MethodPos (rp_Violations report)\<rparr>)"

subsection \<open>The comment preserver: method blocks\<close>

text \<open>
  A method block, without the fields \<^verbatim>\<open>LeadingComments\<close> (read from the comment map and
  never used by the reorderer) and \<^verbatim>\<open>PrecedingNewlines\<close> (never set).
\<close>

record MethodBlock =
  mb_FuncDecl :: FuncDecl
  mb_Name :: string
  mb_StartPos :: int
  mb_EndPos :: int
  mb_RawText :: string

text \<open>\<^verbatim>\<open>src[a:b]\<close> for \<open>0 \<le> a \<le> b \<le> len(src)\<close>, and \<^verbatim>\<open>strings.TrimRight(s, "\n")\<close>.\<close>

definition slice :: "string \<Rightarrow> int \<Rightarrow> int \<Rightarrow> string" where
  "slice src a b = take (nat (b - a)) (drop (nat a) src)"

definition TrimRight_newline :: "string \<Rightarrow> string" where
  "TrimRight_newline s = rev (dropWhile (\<lambda>c. c = CHR 0x0A) (rev s))"

text \<open>
  \<^verbatim>\<open>GetMethodBlock\<close>. The printer of the fallback, \<^verbatim>\<open>format.Node\<close>, is the parameter
  \<open>format_Node\<close>.
\<close>

definition GetMethodBlock :: "(FuncDecl \<Rightarrow> string) \<Rightarrow> FuncDecl \<Rightarrow> string \<Rightarrow> MethodBlock" where
  "GetMethodBlock format_Node fn src =
     (let start = (case fd_Doc fn of
                     Some doc \<Rightarrow> if cg_Pos doc < fd_Pos fn then cg_Pos doc else fd_Pos fn
                   | None \<Rightarrow> fd_Pos fn);
          startOffset = start;
          endOffset = fd_End fn
      in if startOffset \<ge> 0 \<and> endOffset \<le> int (length src) \<and> startOffset \<le> endOffset
         then \<lparr> mb_FuncDecl = fn, mb_Name = fd_Name fn, mb_StartPos = start,
                mb_EndPos = fd_End fn,
                mb_RawText = TrimRight_newline (slice src startOffset endOffset) \<rparr>
         else \<lparr> mb_FuncDecl = fn, mb_Name = fd_Name fn, mb_StartPos = fd_Pos fn,
                mb_EndPos = fd_End fn,
                mb_RawText = TrimRight_newline (format_Node fn) \<rparr>)"

subsection \<open>reorder.go: regions and slot replacements\<close>

datatype error =
    ReadError
  | ParseError
  | NoMethods string
  | CountMismatch nat nat
  | MethodNotFound string
  | BuildRegionFor string error
  | SlotReplacementsFor string error
  | FailedToRead error
  | FailedToParse error
  | FailedToFix error

record structRegion =
  sr_name :: string
  sr_sm :: StructMethods
  sr_blocks :: "MethodBlock list"

record slotReplacement =
  rep_start :: int
  rep_end :: int
  rep_text :: string

definition buildStructRegion ::
  "(FuncDecl \<Rightarrow> string) \<Rightarrow> StructMethods \<Rightarrow> string \<Rightarrow> error + structRegion" where
  "buildStructRegion format_Node sm src =
     (if length (sm_Methods sm) = 0 then Inl (NoMethods (sm_StructName sm))
      else Inr \<lparr> sr_name = sm_StructName sm, sr_sm = sm,
                 sr_blocks = map (\<lambda>mi. GetMethodBlock format_Node (mi_FuncDecl mi) src)
                               (sm_Methods sm) \<rparr>)"

text \<open>The lookup from names to raw texts: a later block with the same name overwrites an
  earlier one.\<close>

definition byName_of :: "MethodBlock list \<Rightarrow> (string \<rightharpoonup> string)" where
  "byName_of blocks = foldl (\<lambda>m b. m(mb_Name b \<mapsto> mb_RawText b)) Map.empty blocks"

text \<open>The loop over the slots; it is entered with as many expected methods as blocks and
  returns at the first name that the lookup does not have.\<close>

fun slot_loop ::
  "(string \<rightharpoonup> string) \<Rightarrow> MethodBlock list \<Rightarrow> MethodInfo list \<Rightarrow> error + slotReplacement list"
where
  "slot_loop byName (block # blocks) (expected # rest) =
     (case byName (mi_Name expected) of
        None \<Rightarrow> Inl (MethodNotFound (mi_Name expected))
      | Some newText \<Rightarrow>
          (case slot_loop byName blocks rest of
             Inl err \<Rightarrow> Inl err
           | Inr reps \<Rightarrow>
               Inr (\<lparr> rep_start = mb_StartPos block, rep_end = mb_EndPos block,
                      rep_text = newText \<rparr> # reps)))"
| "slot_loop byName _ _ = Inr []"

definition buildSlotReplacements :: "structRegion \<Rightarrow> error + slotReplacement list" where
  "buildSlotReplacements region =
     (let byName = byName_of (sr_blocks region);
          expectedOrder = GetExpectedOrder (sr_sm region)
      in if length expectedOrder \<noteq> length (sr_blocks region)
         then Inl (CountMismatch (length expectedOrder) (length (sr_blocks region)))
         else slot_loop byName (sr_blocks region) expectedOrder)"

text \<open>The loop of \<^verbatim>\<open>ReorderStructMethods\<close> that gathers the replacements of every group
  that needs reordering, and leaves at the first error.\<close>

fun collect_replacements ::
  "(FuncDecl \<Rightarrow> string) \<Rightarrow> string \<Rightarrow> structs \<Rightarrow> error + slotReplacement list"
where
  "collect_replacements format_Node src [] = Inr []"
| "collect_replacements format_Node src ((name, sm) # structs) =
     (if \<not> NeedsReordering sm then collect_replacements format_Node src structs
      else
        (case buildStructRegion format_Node sm src of
           Inl err \<Rightarrow> Inl (BuildRegionFor (sm_StructName sm) err)
         | Inr region \<Rightarrow>
             (case buildSlotReplacements region of
                Inl err \<Rightarrow> Inl (SlotReplacementsFor (sm_StructName sm) err)
              | Inr reps \<Rightarrow>
                  (case collect_replacements format_Node src structs of
                     Inl err \<Rightarrow> Inl err
                   | Inr others \<Rightarrow> Inr (reps @ others)))))"

text \<open>Descending by start offset: \<^verbatim>\<open>sort.Slice\<close> with the order
  \<^verbatim>\<open>replacements[i].start > replacements[j].start\<close>.\<close>

definition sort_descending :: "slotReplacement list \<Rightarrow> slotReplacement list" where
  "sort_descending reps = sort_key (\<lambda>rep. - rep_start rep) reps"

text \<open>The splicing loop; \<open>None\<close> is a panic of a splice.\<close>

fun apply_splices :: "string \<Rightarrow> slotReplacement list \<Rightarrow> string option" where
  "apply_splices result [] = Some result"
| "apply_splices result (rep # reps) =
     (case spliceBytes result (rep_start rep) (rep_end rep) (rep_text rep) of
        None \<Rightarrow> None
      | Some result' \<Rightarrow> apply_splices result' reps)"

text \<open>\<^verbatim>\<open>ReorderStructMethods\<close>: \<open>None\<close> is a panic, \<open>Some (Inl err)\<close> the error return,
  \<open>Some (Inr bytes)\<close> the new buffer.\<close>

definition ReorderStructMethods ::
  "(FuncDecl \<Rightarrow> string) \<Rightarrow> string \<Rightarrow> structs \<Rightarrow> (error + string) option" where
  "ReorderStructMethods format_Node src structs =
     (if \<not> list_ex (\<lambda>(name, sm). NeedsReordering sm) structs then Some (Inr src)
      else
        (case collect_replacements format_Node src structs of
           Inl err \<Rightarrow> Some (Inl err)
         | Inr replacements \<Rightarrow>
             map_option Inr (apply_splices src (sort_descending replacements))))"

subsection \<open>The fixer\<close>

record Result =
  r_FilePath :: string
  r_Violations :: nat
  r_Fixed :: bool
  r_OriginalContent :: "string option"
  r_FixedContent :: "string option"
  r_Error :: "error option"

definition fixFile ::
  "(FuncDecl \<Rightarrow> string) \<Rightarrow> Config \<Rightarrow> File \<Rightarrow> string \<Rightarrow> Report \<Rightarrow> (error + string) option" where
  "fixFile format_Node cfg file src report =
     (let structs = CollectStructMethods file;
          needsReorder = filter (\<lambda>(name, sm). NeedsReordering sm) structs
      in if length needsReorder = 0 then Some (Inr src)
         else ReorderStructMethods format_Node src needsReorder)"

text \<open>
  \<^verbatim>\<open>ProcessFile\<close>. What \<^verbatim>\<open>os.ReadFile\<close> returned for the path is the argument
  \<open>readFile\<close>, the parser is the parameter \<open>ParseFile\<close>. A nil byte slice is \<open>None\<close>.
  The result is \<open>None\<close> when a splice panics.
\<close>

definition ProcessFile ::
  "(string \<Rightarrow> error + File) \<Rightarrow> (FuncDecl \<Rightarrow> string) \<Rightarrow> Config \<Rightarrow> string \<Rightarrow> error + string
     \<Rightarrow> Result option" where
  "ProcessFile ParseFile format_Node cfg filePath readFile =
     (let result = \<lparr> r_FilePath = filePath, r_Violations = 0, r_Fixed = False,
                      r_OriginalContent = None, r_FixedContent = None, r_Error = None \<rparr>
      in case readFile of
           Inl err \<Rightarrow> Some (result\<lparr>r_Error := Some (FailedToRead err)\<rparr>)
         | Inr src \<Rightarrow>
             (let result = result\<lparr>r_OriginalContent := Some src\<rparr>
              in case ParseFile src of
                   Inl err \<Rightarrow> Some (result\<lparr>r_Error := Some (FailedToParse err)\<rparr>)
                 | Inr file \<Rightarrow>
                     (let report = Detect cfg file filePath;
                          result = result\<lparr>r_Violations := length (rp_Violations report)\<rparr>
                      in if \<not> HasViolations report \<or> \<not> Fix cfg then Some result
                         else
                           (case fixFile format_Node cfg file src report of
                              None \<Rightarrow> None
                            | Some (Inl err) \<Rightarrow> Some (result\<lparr>r_Error := Some (FailedToFix err)\<rparr>)
                            | Some (Inr fixedContent) \<Rightarrow>
                                Some (result\<lparr>r_FixedContent := Some fixedContent,
                                             r_Fixed := True\<rparr>)))))"

subsection \<open>Notions used in the statements\<close>

text \<open>The start of a function's block as \<^verbatim>\<open>GetMethodBlock\<close> first computes it (the doc
  comment when there is one before the function), and the test that guards the slicing.\<close>

definition doc_start :: "FuncDecl \<Rightarrow> int" where
  "doc_start fn =
     (case fd_Doc fn of
        Some doc \<Rightarrow> if cg_Pos doc < fd_Pos fn then cg_Pos doc else fd_Pos fn
      | None \<Rightarrow> fd_Pos fn)"

definition offsets_usable :: "FuncDecl \<Rightarrow> string \<Rightarrow> bool" where
  "offsets_usable fn src =
     (0 \<le> doc_start fn \<and> fd_End fn \<le> int (length src) \<and> doc_start fn \<le> fd_End fn)"

text \<open>What \<^verbatim>\<open>collectStructMethods\<close> establishes for every group: each method record is the
  one \<^verbatim>\<open>newMethodInfo\<close> builds from its declaration, the methods are sorted by position,
  and the three partitions are the methods filtered by category, in the same order.\<close>

definition method_ok :: "MethodInfo \<Rightarrow> bool" where
  "method_ok m = (m = newMethodInfo (mi_FuncDecl m))"

definition group_ok :: "StructMethods \<Rightarrow> bool" where
  "group_ok sm =
     (list_all method_ok (sm_Methods sm)
      \<and> sorted (map mi_Pos (sm_Methods sm))
      \<and> sm_Constructors sm = filter mi_IsConstructor (sm_Methods sm)
      \<and> sm_ExportedMethods sm
          = filter (\<lambda>m. \<not> mi_IsConstructor m \<and> mi_IsExported m) (sm_Methods sm)
      \<and> sm_UnexportedMethods sm
          = filter (\<lambda>m. \<not> mi_IsConstructor m \<and> \<not> mi_IsExported m) (sm_Methods sm))"

text \<open>A group between the two collecting loops and the sorting: no partitions yet.\<close>

definition fresh_group :: "StructMethods \<Rightarrow> bool" where
  "fresh_group sm =
     (list_all method_ok (sm_Methods sm) \<and> sm_Constructors sm = []
      \<and> sm_ExportedMethods sm = [] \<and> sm_UnexportedMethods sm = [])"

text \<open>The category of a method as a rank: constructors, then exported, then unexported
  methods.\<close>

definition rank :: "MethodInfo \<Rightarrow> nat" where
  "rank m = (if mi_IsConstructor m then 0 else if mi_IsExported m then 1 else 2)"

text \<open>The function declarations of a file, in the order of its declaration list.\<close>

fun func_decls :: "File \<Rightarrow> FuncDecl list" where
  "func_decls [] = []"
| "func_decls (FuncDeclD fn # ds) = fn # func_decls ds"
| "func_decls (GenDecl specs # ds) = func_decls ds"

text \<open>
  The violation, if any, that the constructor check reports for one constructor (its
  reference is the first exported method of the group positioned before it), the one that
  the export check reports for one unexported method (its reference is the first exported
  method positioned after it), and all violations of one group.
\<close>

definition constructor_violation :: "StructMethods \<Rightarrow> MethodInfo \<Rightarrow> Violation option" where
  "constructor_violation sm c =
     map_option
       (\<lambda>e. newViolation ViolationConstructor (mi_FuncDecl c) (sm_StructName sm)
              (''constructor '' @ mi_Name c @ '' should appear before exported method ''
                 @ mi_Name e)
              \<lparr> sf_TargetPos = mi_Pos e, sf_TargetName = mi_Name e \<rparr>)
       (find (\<lambda>e. mi_Pos e < mi_Pos c) (sm_ExportedMethods sm))"

definition exported_violation :: "StructMethods \<Rightarrow> MethodInfo \<Rightarrow> Violation option" where
  "exported_violation sm u =
     map_option
       (\<lambda>e. newViolation ViolationExported (mi_FuncDecl u) (sm_StructName sm)
              (''unexported method '' @ mi_Name u @ '' should appear after exported method ''
                 @ mi_Name e)
              \<lparr> sf_TargetPos = mi_End e, sf_TargetName = mi_Name e \<rparr>)
       (find (\<lambda>e. mi_Pos e > mi_Pos u) (sm_ExportedMethods sm))"

definition group_violations :: "Config \<Rightarrow> StructMethods \<Rightarrow> Violation list" where
  "group_violations cfg sm =
     (if length (sm_Methods sm) \<le> 1 then []
      else (if CheckConstructor cfg
            then List.map_filter (constructor_violation sm) (sm_Constructors sm) else [])
         @ (if CheckExported cfg
            then List.map_filter (exported_violation sm) (sm_UnexportedMethods sm) else []))"

text \<open>The positions of the methods of a group, and what a file with pairwise different
  function positions gives the collected groups: different names, and method positions
  that are different within a group and across groups.\<close>

definition group_positions :: "StructMethods \<Rightarrow> int list" where
  "group_positions sm = map mi_Pos (sm_Methods sm)"

definition groups_separate :: "structs \<Rightarrow> bool" where
  "groups_separate st =
     (distinct (map fst st)
      \<and> (\<forall>e \<in> set st. distinct (group_positions (snd e)))
      \<and> (\<forall>e \<in> set st. \<forall>e' \<in> set st. fst e \<noteq> fst e' \<longrightarrow>
            set (group_positions (snd e)) \<inter> set (group_positions (snd e')) = {}))"

text \<open>
  What a replacement adds to the length of the buffer, and the shift of an original offset
  \<open>x\<close>: the sum over the replacements that end at or before \<open>x\<close>.
\<close>

definition delta :: "slotReplacement \<Rightarrow> int" where
  "delta rep = int (length (rep_text rep)) - (rep_end rep - rep_start rep)"

definition shift :: "slotReplacement list \<Rightarrow> int \<Rightarrow> int" where
  "shift reps x = sum_list (map delta (filter (\<lambda>rep. rep_end rep \<le> x) reps))"

text \<open>Replacements whose ranges are non-empty, within the buffer and pairwise disjoint.\<close>

definition slots_disjoint :: "slotReplacement list \<Rightarrow> string \<Rightarrow> bool" where
  "slots_disjoint reps src =
     (distinct (map rep_start reps)
      \<and> (\<forall>r \<in> set reps. 0 \<le> rep_start r \<and> rep_start r < rep_end r
                           \<and> rep_end r \<le> int (length src))
      \<and> (\<forall>r \<in> set reps. \<forall>r' \<in> set reps.
            rep_start r < rep_start r' \<longrightarrow> rep_end r \<le> rep_start r'))"

text \<open>
  The replacements of one group in closed form: slot \<open>i\<close> has the range of the block of the
  \<open>i\<close>-th method and the text that the lookup by name has for the \<open>i\<close>-th expected method.
\<close>

definition group_blocks :: "(FuncDecl \<Rightarrow> string) \<Rightarrow> string \<Rightarrow> StructMethods \<Rightarrow> MethodBlock list" where
  "group_blocks format_Node src sm =
     map (\<lambda>mi. GetMethodBlock format_Node (mi_FuncDecl mi) src) (sm_Methods sm)"

definition group_replacements ::
  "(FuncDecl \<Rightarrow> string) \<Rightarrow> string \<Rightarrow> StructMethods \<Rightarrow> slotReplacement list" where
  "group_replacements format_Node src sm =
     map (\<lambda>(block, expected).
            \<lparr> rep_start = mb_StartPos block, rep_end = mb_EndPos block,
              rep_text = (case byName_of (group_blocks format_Node src sm) (mi_Name expected) of
                            Some text \<Rightarrow> text | None \<Rightarrow> []) \<rparr>)
       (zip (group_blocks format_Node src sm) (GetExpectedOrder sm))"

definition file_replacements ::
  "(FuncDecl \<Rightarrow> string) \<Rightarrow> string \<Rightarrow> File \<Rightarrow> slotReplacement list" where
  "file_replacements format_Node src file =
     concat (map (\<lambda>(name, sm). group_replacements format_Node src sm)
               (filter (\<lambda>(name, sm). NeedsReordering sm) (CollectStructMethods file)))"

text \<open>
  What the parser guarantees about the function declarations of a file it has parsed from
  \<open>src\<close>: they start at different positions, the block of each (from its doc comment to
  its end) is non-empty and within the buffer, and the blocks do not overlap.
\<close>

definition parsed_layout :: "File \<Rightarrow> string \<Rightarrow> bool" where
  "parsed_layout file src =
     (distinct (map fd_Pos (func_decls file))
      \<and> (\<forall>f \<in> set (func_decls file).
            0 \<le> doc_start f \<and> fd_Pos f < fd_End f \<and> fd_End f \<le> int (length src))
      \<and> (\<forall>f \<in> set (func_decls file). \<forall>g \<in> set (func_decls file).
            fd_Pos f < fd_Pos g \<longrightarrow> fd_End f \<le> doc_start g))"

text \<open>The text that slot \<open>i\<close> of a group receives: what the lookup by name holds for the
  \<open>i\<close>-th method of the expected order.\<close>

definition expected_text :: "(FuncDecl \<Rightarrow> string) \<Rightarrow> string \<Rightarrow> StructMethods \<Rightarrow> nat \<Rightarrow> string" where
  "expected_text format_Node src sm i =
     (case byName_of (group_blocks format_Node src sm) (mi_Name (GetExpectedOrder sm ! i)) of
        Some text \<Rightarrow> text | None \<Rightarrow> [])"









subsection \<open>Example inputs\<close>

text \<open>
  A printer for the examples. Like \<^verbatim>\<open>format.Node\<close> on a function declaration it writes
  the doc comment of the node, one comment per line, and then the declaration, of which
  it writes what this tree holds: the keyword, the name and an empty parameter list.
\<close>

definition print_node :: "FuncDecl \<Rightarrow> string" where
  "print_node fn =
     (case fd_Doc fn of
        Some doc \<Rightarrow> concat (map (\<lambda>c. c @ [CHR 0x0A]) (cg_List doc))
      | None \<Rightarrow> [])
     @ ''func '' @ fd_Name fn @ ''()''"

text \<open>\<^verbatim>\<open>// Run starts.\<close> on the line above \<^verbatim>\<open>func (s *Svc) Run() {}\<close>, the method as
  the parser reads it from this buffer, and a buffer that holds only the first 19 bytes
  of the file.\<close>

definition src_doc :: string where
  "src_doc = ''// Run starts.\<newline>func (s *Svc) Run() {}\<newline>''"

definition fn_doc :: FuncDecl where
  "fn_doc =
     \<lparr> fd_Name = ''Run'', fd_Recv = Some [StarExpr (Ident ''Svc'')],
       fd_Pos = 15, fd_End = 37,
       fd_Doc = Some \<lparr> cg_Pos = 0, cg_List = [''// Run starts.''] \<rparr> \<rparr>"

definition src_cut :: string where
  "src_cut = ''// Run starts.\<newline>func''"

text \<open>A struct \<^verbatim>\<open>S\<close> with the methods \<^verbatim>\<open>a\<close> and \<^verbatim>\<open>B\<close>, in this order.\<close>

definition src_two :: string where
  "src_two = ''type S struct{}\<newline>func (s S) a() {}\<newline>func (s S) B() {}\<newline>''"

definition fn_a :: FuncDecl where
  "fn_a = \<lparr> fd_Name = ''a'', fd_Recv = Some [Ident ''S''], fd_Pos = 16, fd_End = 33,
            fd_Doc = None \<rparr>"

definition fn_B :: FuncDecl where
  "fn_B = \<lparr> fd_Name = ''B'', fd_Recv = Some [Ident ''S''], fd_Pos = 34, fd_End = 51,
            fd_Doc = None \<rparr>"

definition file_two :: File where
  "file_two = [GenDecl [TypeSpec ''S'' True 5 15], FuncDeclD fn_a, FuncDeclD fn_B]"

text \<open>The group of \<^verbatim>\<open>S\<close> before \<^verbatim>\<open>CategorizeMethods\<close> has run: two methods, no
  partitions.\<close>

definition sm_uncategorized :: StructMethods where
  "sm_uncategorized =
     \<lparr> sm_StructName = ''S'', sm_StructPos = 5, sm_StructEnd = 15,
       sm_Methods = [newMethodInfo fn_a, newMethodInfo fn_B],
       sm_Constructors = [], sm_ExportedMethods = [], sm_UnexportedMethods = [] \<rparr>"

text \<open>A group whose exported partition names two methods that are not among its methods.\<close>

definition sm_foreign :: StructMethods where
  "sm_foreign =
     sm_uncategorized\<lparr>sm_ExportedMethods :=
       [newMethodInfo (fn_a\<lparr>fd_Name := ''X''\<rparr>), newMethodInfo (fn_B\<lparr>fd_Name := ''Y''\<rparr>)]\<rparr>"

definition cfg_fix :: Config where
  "cfg_fix = \<lparr> Fix = True, Write = False, Diff = False, ListOnly = False, Verbose = False,
               CheckConstructor = True, CheckExported = True \<rparr>"

text \<open>The same struct with \<^verbatim>\<open>B\<close> before \<^verbatim>\<open>a\<close>, which is the expected order.\<close>

definition src_ordered :: string where
  "src_ordered = ''type S struct{}\<newline>func (s S) B() {}\<newline>func (s S) a() {}\<newline>''"

definition file_ordered :: File where
  "file_ordered =
     [GenDecl [TypeSpec ''S'' True 5 15],
      FuncDeclD (fn_B\<lparr>fd_Pos := 16, fd_End := 33\<rparr>),
      FuncDeclD (fn_a\<lparr>fd_Pos := 34, fd_End := 51\<rparr>)]"

definition cfg_check :: Config where
  "cfg_check = cfg_fix\<lparr>Fix := False\<rparr>"

text \<open>The scenario of the specification: a struct \<^verbatim>\<open>S\<close> with the methods \<^verbatim>\<open>helper\<close>,
  \<^verbatim>\<open>Run\<close> and \<^verbatim>\<open>NewS\<close>, in this order.\<close>

definition src_three :: string where
  "src_three = ''type S struct{}\<newline>func (s S) helper() {}\<newline>func (s S) Run() {}\<newline>func (s S) NewS() {}\<newline>''"

definition fn_helper :: FuncDecl where
  "fn_helper = \<lparr> fd_Name = ''helper'', fd_Recv = Some [Ident ''S''], fd_Pos = 16, fd_End = 38,
                 fd_Doc = None \<rparr>"

definition fn_Run :: FuncDecl where
  "fn_Run = \<lparr> fd_Name = ''Run'', fd_Recv = Some [Ident ''S''], fd_Pos = 39, fd_End = 58,
              fd_Doc = None \<rparr>"

definition fn_NewS :: FuncDecl where
  "fn_NewS = \<lparr> fd_Name = ''NewS'', fd_Recv = Some [Ident ''S''], fd_Pos = 59, fd_End = 79,
               fd_Doc = None \<rparr>"

definition file_three :: File where
  "file_three =
     [GenDecl [TypeSpec ''S'' True 5 15], FuncDeclD fn_helper, FuncDeclD fn_Run,
      FuncDeclD fn_NewS]"

text \<open>Two structs with interleaved methods: \<^verbatim>\<open>A\<close> has \<^verbatim>\<open>helper\<close> before \<^verbatim>\<open>Run\<close>, and
  \<^verbatim>\<open>B\<close> has \<^verbatim>\<open>reset\<close> before its constructor \<^verbatim>\<open>NewB\<close> and no exported method.\<close>

definition src_ab :: string where
  "src_ab = ''type A struct{}\<newline>type B struct{}\<newline>func (a A) helper() {}\<newline>func (b B) reset() {}\<newline>func (a A) Run() {}\<newline>func (b B) NewB() {}\<newline>''"

definition file_ab :: File where
  "file_ab =
     [GenDecl [TypeSpec ''A'' True 5 15], GenDecl [TypeSpec ''B'' True 21 31],
      FuncDeclD \<lparr> fd_Name = ''helper'', fd_Recv = Some [Ident ''A''], fd_Pos = 32, fd_End = 54,
                  fd_Doc = None \<rparr>,
      FuncDeclD \<lparr> fd_Name = ''reset'', fd_Recv = Some [Ident ''B''], fd_Pos = 55, fd_End = 76,
                  fd_Doc = None \<rparr>,
      FuncDeclD \<lparr> fd_Name = ''Run'', fd_Recv = Some [Ident ''A''], fd_Pos = 77, fd_End = 96,
                  fd_Doc = None \<rparr>,
      FuncDeclD \<lparr> fd_Name = ''NewB'', fd_Recv = Some [Ident ''B''], fd_Pos = 97, fd_End = 117,
                  fd_Doc = None \<rparr>]"

definition fixed_ab :: string where
  "fixed_ab = ''type A struct{}\<newline>type B struct{}\<newline>func (a A) Run() {}\<newline>func (b B) NewB() {}\<newline>func (a A) helper() {}\<newline>func (b B) reset() {}\<newline>''"

text \<open>The group of \<^verbatim>\<open>B\<close> that is collected from the file with the two structs.\<close>

definition group_B :: StructMethods where
  "group_B = snd (CollectStructMethods file_ab ! 1)"

text \<open>A struct with two methods of the same name \<^verbatim>\<open>a\<close> and different bodies around the
  exported method \<^verbatim>\<open>B\<close>: the parser accepts the file.\<close>

definition src_dup :: string where
  "src_dup = ''type S struct{}\<newline>func (s S) a() {}\<newline>func (s S) B() {}\<newline>func (s S) a() {x()}\<newline>''"

definition fn_a1 :: FuncDecl where
  "fn_a1 = \<lparr> fd_Name = ''a'', fd_Recv = Some [Ident ''S''], fd_Pos = 16, fd_End = 33,
             fd_Doc = None \<rparr>"

definition fn_a2 :: FuncDecl where
  "fn_a2 = \<lparr> fd_Name = ''a'', fd_Recv = Some [Ident ''S''], fd_Pos = 52, fd_End = 72,
             fd_Doc = None \<rparr>"

definition file_dup :: File where
  "file_dup =
     [GenDecl [TypeSpec ''S'' True 5 15], FuncDeclD fn_a1, FuncDeclD fn_B, FuncDeclD fn_a2]"

definition group_dup :: StructMethods where
  "group_dup = snd (CollectStructMethods file_dup ! 0)"

text \<open>The group of \<^verbatim>\<open>S\<close> collected from the scenario with \<^verbatim>\<open>helper\<close>, \<^verbatim>\<open>Run\<close> and
  \<^verbatim>\<open>NewS\<close>.\<close>

definition group_three :: StructMethods where
  "group_three = snd (CollectStructMethods file_three ! 0)"





section \<open>Receiver type names\<close>

text \<open>
  Claim C2. The claim: for a receiver that is a plain type name, a pointer to a type name,
  a type name with one or more type parameters, or a pointer to such a parameterized name,
  \<^verbatim>\<open>GetReceiverTypeName\<close> returns the declared type name. The code returns the empty
  string for a pointer to a parameterized name (\<^verbatim>\<open>*Container[T]\<close>), for a name with
  several type parameters (\<^verbatim>\<open>Map[K, V]\<close>) and for a pointer to one, which are the
  receivers its own test table expects to resolve to \<^verbatim>\<open>Container\<close> and \<^verbatim>\<open>Map\<close>.
\<close>

theorem GetReceiverTypeName_generic_receivers:
  "GetReceiverTypeName (StarExpr (IndexExpr (Ident ''Container'') (Ident ''T''))) = []
   \<and> GetReceiverTypeName (IndexListExpr (Ident ''Map'') [Ident ''K'', Ident ''V'']) = []
   \<and> GetReceiverTypeName (StarExpr (IndexListExpr (Ident ''Map'') [Ident ''K'', Ident ''V''])) = []
   \<and> GetReceiverTypeName (Ident ''Foo'') = ''Foo''
   \<and> GetReceiverTypeName (StarExpr (Ident ''Foo'')) = ''Foo''
   \<and> GetReceiverTypeName (IndexExpr (Ident ''Container'') (Ident ''T'')) = ''Container''"
  by simp

section \<open>The splice primitive\<close>

text \<open>
  Claim C6. For \<open>0 \<le> start \<le> end \<le> len(buffer)\<close> the splice returns
  \<open>buffer[:start] + replacement + buffer[end:]\<close>; the length of the result is
  \<open>len(buffer) - (end - start) + len(replacement)\<close>; every byte before \<open>start\<close> keeps its
  index, and every byte from \<open>end\<close> on is found at its index shifted by
  \<open>len(replacement) - (end - start)\<close>.
\<close>

theorem spliceBytes_contract:
  assumes "0 \<le> start" and "start \<le> endp" and "endp \<le> int (length buffer)"
  shows "\<exists>r. spliceBytes buffer start endp replacement = Some r
           \<and> r = take (nat start) buffer @ replacement @ drop (nat endp) buffer
           \<and> int (length r) = int (length buffer) - (endp - start) + int (length replacement)
           \<and> (\<forall>i. 0 \<le> i \<and> i < start \<longrightarrow> r ! nat i = buffer ! nat i)
           \<and> (\<forall>i. endp \<le> i \<and> i < int (length buffer) \<longrightarrow>
                  r ! nat (i + (int (length replacement) - (endp - start))) = buffer ! nat i)"
proof -
  let ?r = "take (nat start) buffer @ replacement @ drop (nat endp) buffer"
  have run: "spliceBytes buffer start endp replacement = Some ?r"
    using assms by (simp add: spliceBytes_def)
  have len: "int (length ?r) = int (length buffer) - (endp - start) + int (length replacement)"
    using assms by (auto simp: min_def)
  have pre: "?r ! nat i = buffer ! nat i" if "0 \<le> i" "i < start" for i
    using that assms by (simp add: nth_append)
  have suf: "?r ! nat (i + (int (length replacement) - (endp - start))) = buffer ! nat i"
    if "endp \<le> i" "i < int (length buffer)" for i
  proof -
    have lt: "length (take (nat start) buffer) = nat start"
      using assms by (auto simp: min_def)
    have idx: "nat (i + (int (length replacement) - (endp - start)))
                 = nat start + (length replacement + nat (i - endp))"
      using that assms by linarith
    have "?r ! (nat start + (length replacement + nat (i - endp)))
            = drop (nat endp) buffer ! nat (i - endp)"
      by (metis lt nth_append_length_plus)
    also have "\<dots> = buffer ! (nat endp + nat (i - endp))"
      using that assms by simp
    also have "nat endp + nat (i - endp) = nat i"
      using that assms by linarith
    finally show ?thesis by (simp add: idx)
  qed
  show ?thesis using run len pre suf by blast
qed

theorem spliceBytes_contract_witness:
  "spliceBytes ''hello world'' 5 10 ''_there_'' = Some ''hello_there_d''
   \<and> int (length ''hello_there_d'') = int (length ''hello world'') - (10 - 5) + int (length ''_there_'')"
  using spliceBytes_contract [of 5 10 "''hello world''" "''_there_''"] by simp

section \<open>Evaluating the model\<close>

text \<open>The defining equations that the simplifier needs to run the detector on a concrete
  file.\<close>

lemmas detector_defs =
  Detect_def CollectStructMethods_def collectStructMethods_def attach_method_def
  sort_and_categorize_def CategorizeMethods_def categorize_step_def newMethodInfo_def
  isConstructor_def HasPrefix_def IsExported_def checkStructMethods_def
  checkConstructorOrdering_def checkExportedOrdering_def constructor_step_def
  exported_step_def AddViolation_def newViolation_def NeedsReordering_def
  GetExpectedOrder_def GetCurrentOrder_def Let_def

lemmas example_defs =
  file_two_def file_ordered_def fn_a_def fn_B_def cfg_check_def cfg_fix_def
  file_three_def fn_helper_def fn_Run_def fn_NewS_def file_ab_def
  file_dup_def fn_a1_def fn_a2_def

section \<open>The groups collected from a file\<close>

lemma foldl_categorize_step:
  "foldl categorize_step sm ms =
     sm\<lparr> sm_Constructors := sm_Constructors sm @ filter mi_IsConstructor ms,
         sm_ExportedMethods := sm_ExportedMethods sm
            @ filter (\<lambda>m. \<not> mi_IsConstructor m \<and> mi_IsExported m) ms,
         sm_UnexportedMethods := sm_UnexportedMethods sm
            @ filter (\<lambda>m. \<not> mi_IsConstructor m \<and> \<not> mi_IsExported m) ms \<rparr>"
proof (induction ms arbitrary: sm)
  case Nil
  then show ?case by simp
next
  case (Cons m ms)
  have "foldl categorize_step sm (m # ms) = foldl categorize_step (categorize_step sm m) ms"
    by simp
  also have "\<dots> = sm\<lparr> sm_Constructors := sm_Constructors sm @ filter mi_IsConstructor (m # ms),
         sm_ExportedMethods := sm_ExportedMethods sm
            @ filter (\<lambda>m. \<not> mi_IsConstructor m \<and> mi_IsExported m) (m # ms),
         sm_UnexportedMethods := sm_UnexportedMethods sm
            @ filter (\<lambda>m. \<not> mi_IsConstructor m \<and> \<not> mi_IsExported m) (m # ms) \<rparr>"
    unfolding Cons.IH by (simp add: categorize_step_def)
  finally show ?case .
qed

lemma CategorizeMethods_Methods [simp]: "sm_Methods (CategorizeMethods sm) = sm_Methods sm"
  by (simp add: CategorizeMethods_def foldl_categorize_step)

lemma set_update_subset: "set (AList.update k v al) \<subseteq> insert (k, v) (set al)"
  by (induction al) auto

lemma collect_specs_fresh:
  "\<forall>e \<in> set st. fresh_group (snd e) \<Longrightarrow> \<forall>e \<in> set (collect_specs specs st). fresh_group (snd e)"
proof (induction specs st rule: collect_specs.induct)
  case (2 name isStruct p e specs st)
  let ?new = "\<lparr> sm_StructName = name, sm_StructPos = p, sm_StructEnd = e,
                 sm_Methods = [], sm_Constructors = [], sm_ExportedMethods = [],
                 sm_UnexportedMethods = [] \<rparr>"
  have "\<forall>e \<in> set (if isStruct then AList.update name ?new st else st). fresh_group (snd e)"
    using "2.prems" set_update_subset [of name ?new st]
    by (auto simp: fresh_group_def)
  from "2.IH" [OF this] show ?case by simp
qed simp_all

lemma collect_types_fresh:
  "\<forall>e \<in> set st. fresh_group (snd e) \<Longrightarrow> \<forall>e \<in> set (collect_types ds st). fresh_group (snd e)"
  by (induction ds st rule: collect_types.induct) (simp_all add: collect_specs_fresh)

lemma method_ok_newMethodInfo [simp]: "method_ok (newMethodInfo fn)"
  by (simp add: method_ok_def newMethodInfo_def)

lemma attach_method_cases:
  "attach_method fn st = st
   \<or> (\<exists>t sm. (GetReceiverTypeName t, sm) \<in> set st
         \<and> attach_method fn st
             = AList.update (GetReceiverTypeName t)
                 (sm\<lparr>sm_Methods := sm_Methods sm @ [newMethodInfo fn]\<rparr>) st)"
  by (auto simp: attach_method_def split: option.splits list.splits dest: map_of_SomeD)

lemma attach_method_fresh:
  assumes "\<forall>e \<in> set st. fresh_group (snd e)"
  shows "\<forall>e \<in> set (attach_method fn st). fresh_group (snd e)"
proof -
  consider "attach_method fn st = st"
    | t sm where "(GetReceiverTypeName t, sm) \<in> set st"
        "attach_method fn st
           = AList.update (GetReceiverTypeName t)
               (sm\<lparr>sm_Methods := sm_Methods sm @ [newMethodInfo fn]\<rparr>) st"
    using attach_method_cases [of fn st] by blast
  then show ?thesis
  proof cases
    case 1
    then show ?thesis using assms by simp
  next
    case 2
    have "fresh_group sm" using assms 2(1) by auto
    then have new: "fresh_group (sm\<lparr>sm_Methods := sm_Methods sm @ [newMethodInfo fn]\<rparr>)"
      by (simp add: fresh_group_def)
    show ?thesis
      using assms new 2(2)
        set_update_subset [of "GetReceiverTypeName t"
          "sm\<lparr>sm_Methods := sm_Methods sm @ [newMethodInfo fn]\<rparr>" st]
      by auto
  qed
qed

lemma collect_methods_fresh:
  "\<forall>e \<in> set st. fresh_group (snd e) \<Longrightarrow> \<forall>e \<in> set (collect_methods ds st). fresh_group (snd e)"
  by (induction ds st rule: collect_methods.induct) (simp_all add: attach_method_fresh)

lemma sort_and_categorize_ok:
  assumes "fresh_group sm"
  shows "group_ok (sort_and_categorize sm)"
  using assms
  by (simp add: group_ok_def fresh_group_def sort_and_categorize_def CategorizeMethods_def
      foldl_categorize_step list_all_iff)

lemma collected_group_ok:
  assumes "(name, sm) \<in> set (CollectStructMethods file)"
  shows "group_ok sm"
proof -
  have fresh: "\<forall>e \<in> set (collect_methods file (collect_types file [])). fresh_group (snd e)"
    by (rule collect_methods_fresh, rule collect_types_fresh) simp
  obtain sm0 where "(name, sm0) \<in> set (collect_methods file (collect_types file []))"
    and "sm = sort_and_categorize sm0"
    using assms by (auto simp: CollectStructMethods_def collectStructMethods_def)
  then show ?thesis
    using fresh sort_and_categorize_ok by fastforce
qed

subsection \<open>A group in order yields no violation\<close>

lemma method_ok_fields:
  assumes "method_ok m"
  shows "mi_IsConstructor m = isConstructor (mi_Name m)"
    and "mi_IsExported m = IsExported (mi_Name m)"
    and "mi_Name m = fd_Name (mi_FuncDecl m)"
    and "mi_Pos m = fd_Pos (mi_FuncDecl m)"
    and "mi_End m = fd_End (mi_FuncDecl m)"
proof -
  obtain fn where m: "m = newMethodInfo fn"
    using assms unfolding method_ok_def by blast
  show "mi_IsConstructor m = isConstructor (mi_Name m)"
    and "mi_IsExported m = IsExported (mi_Name m)"
    and "mi_Name m = fd_Name (mi_FuncDecl m)"
    and "mi_Pos m = fd_Pos (mi_FuncDecl m)"
    and "mi_End m = fd_End (mi_FuncDecl m)"
    by (simp_all add: m newMethodInfo_def)
qed

lemma rank_by_name:
  assumes "method_ok a" and "method_ok b" and "mi_Name a = mi_Name b"
  shows "rank a = rank b"
  using assms by (simp add: rank_def method_ok_fields(1,2))

lemma same_names_same_ranks:
  assumes "length xs = length ys"
    and "\<not> list_ex (\<lambda>(c, e). mi_Name c \<noteq> mi_Name e) (zip xs ys)"
    and "list_all method_ok xs" and "list_all method_ok ys"
  shows "map rank xs = map rank ys"
  using assms
proof (induction xs ys rule: list_induct2)
  case Nil
  then show ?case by simp
next
  case (Cons x xs y ys)
  then show ?case by (simp add: rank_by_name)
qed

lemma sorted_map_const:
  fixes f :: "'a \<Rightarrow> nat"
  shows "(\<And>x. x \<in> set xs \<Longrightarrow> f x = c) \<Longrightarrow> sorted (map f xs)"
  by (induction xs) auto

lemma partition_sorted_by_rank:
  "sorted (map rank
     (filter mi_IsConstructor xs
        @ filter (\<lambda>m. \<not> mi_IsConstructor m \<and> mi_IsExported m) xs
        @ filter (\<lambda>m. \<not> mi_IsConstructor m \<and> \<not> mi_IsExported m) xs))"
  by (auto simp: sorted_append rank_def intro!: sorted_map_const)

lemma sorted_by_rank_is_partition:
  "sorted (map rank xs) \<Longrightarrow>
     filter mi_IsConstructor xs
       @ filter (\<lambda>m. \<not> mi_IsConstructor m \<and> mi_IsExported m) xs
       @ filter (\<lambda>m. \<not> mi_IsConstructor m \<and> \<not> mi_IsExported m) xs = xs"
proof (induction xs)
  case Nil
  then show ?case by simp
next
  case (Cons x xs)
  then have tail: "sorted (map rank xs)" and le: "\<forall>y \<in> set xs. rank x \<le> rank y"
    by simp_all
  note IH = Cons.IH [OF tail]
  show ?case
  proof (cases "mi_IsConstructor x")
    case True
    then show ?thesis using IH by simp
  next
    case nc: False
    then have noc: "filter mi_IsConstructor xs = []"
      using le by (auto simp: rank_def filter_empty_conv split: if_splits)
    show ?thesis
    proof (cases "mi_IsExported x")
      case True
      then show ?thesis using IH nc noc by simp
    next
      case False
      then have "filter (\<lambda>m. \<not> mi_IsConstructor m \<and> mi_IsExported m) xs = []"
        using le nc by (auto simp: rank_def filter_empty_conv split: if_splits)
      then show ?thesis using IH nc noc False by simp
    qed
  qed
qed

lemma length_partition:
  "length (filter mi_IsConstructor xs)
     + (length (filter (\<lambda>m. \<not> mi_IsConstructor m \<and> mi_IsExported m) xs)
        + length (filter (\<lambda>m. \<not> mi_IsConstructor m \<and> \<not> mi_IsExported m) xs)) = length xs"
  by (induction xs) auto

lemma group_ok_expected_length:
  "group_ok sm \<Longrightarrow> length (GetExpectedOrder sm) = length (sm_Methods sm)"
  by (simp add: group_ok_def GetExpectedOrder_def length_partition)

lemma group_ok_expected_all_ok:
  "group_ok sm \<Longrightarrow> list_all method_ok (GetExpectedOrder sm)"
  by (auto simp: group_ok_def GetExpectedOrder_def list_all_iff)

text \<open>A collected group that does not need reordering already is its expected order.\<close>

lemma in_order_is_expected:
  assumes ok: "group_ok sm" and len: "1 < length (sm_Methods sm)"
    and no: "\<not> NeedsReordering sm"
  shows "GetExpectedOrder sm = sm_Methods sm"
proof -
  have eqlen: "length (sm_Methods sm) = length (GetExpectedOrder sm)"
    using ok by (simp add: group_ok_expected_length)
  have "\<not> list_ex (\<lambda>(c, e). mi_Name c \<noteq> mi_Name e) (zip (sm_Methods sm) (GetExpectedOrder sm))"
    using no len eqlen by (simp add: NeedsReordering_def GetCurrentOrder_def)
  then have "map rank (sm_Methods sm) = map rank (GetExpectedOrder sm)"
    using same_names_same_ranks [OF eqlen] ok group_ok_expected_all_ok [OF ok]
    by (simp add: group_ok_def)
  also have "sorted (map rank (GetExpectedOrder sm))"
    using ok partition_sorted_by_rank [of "sm_Methods sm"]
    by (simp add: group_ok_def GetExpectedOrder_def)
  finally have "sorted (map rank (sm_Methods sm))" .
  from sorted_by_rank_is_partition [OF this] show ?thesis
    using ok by (simp add: group_ok_def GetExpectedOrder_def)
qed

lemma find_None_iff_all: "find P xs = None \<longleftrightarrow> (\<forall>x \<in> set xs. \<not> P x)"
  by (induction xs) auto

lemma foldl_id: "(\<And>x. x \<in> set xs \<Longrightarrow> f r x = r) \<Longrightarrow> foldl f r xs = r"
  by (induction xs) auto

lemma ordered_partitions_no_violation:
  assumes "sorted (map mi_Pos (sm_Constructors sm @ sm_ExportedMethods sm @ sm_UnexportedMethods sm))"
  shows "checkConstructorOrdering sm report = report"
    and "checkExportedOrdering sm report = report"
proof -
  have ce: "mi_Pos c \<le> mi_Pos e"
    if "c \<in> set (sm_Constructors sm)" "e \<in> set (sm_ExportedMethods sm)" for c e
    using assms that by (auto simp: sorted_append)
  have eu: "mi_Pos e \<le> mi_Pos u"
    if "e \<in> set (sm_ExportedMethods sm)" "u \<in> set (sm_UnexportedMethods sm)" for e u
    using assms that by (auto simp: sorted_append)
  have "constructor_step sm report c = report" if "c \<in> set (sm_Constructors sm)" for c
  proof -
    have "find (\<lambda>exported. mi_Pos exported < mi_Pos c) (sm_ExportedMethods sm) = None"
      using ce [OF that] by (fastforce simp: find_None_iff_all)
    then show ?thesis by (simp add: constructor_step_def)
  qed
  then show "checkConstructorOrdering sm report = report"
    by (simp add: checkConstructorOrdering_def foldl_id)
  have "exported_step sm report u = report" if "u \<in> set (sm_UnexportedMethods sm)" for u
  proof -
    have "find (\<lambda>exported. mi_Pos exported > mi_Pos u) (sm_ExportedMethods sm) = None"
      using eu [OF _ that] by (fastforce simp: find_None_iff_all)
    then show ?thesis by (simp add: exported_step_def)
  qed
  then show "checkExportedOrdering sm report = report"
    by (simp add: checkExportedOrdering_def foldl_id)
qed

lemma in_order_no_violation:
  assumes ok: "group_ok sm" and no: "\<not> NeedsReordering sm"
  shows "checkStructMethods cfg sm report = report"
proof (cases "length (sm_Methods sm) \<le> 1")
  case True
  then show ?thesis by (simp add: checkStructMethods_def)
next
  case False
  then have "GetExpectedOrder sm = sm_Methods sm"
    using in_order_is_expected [OF ok _ no] by simp
  then have "sorted (map mi_Pos (sm_Constructors sm @ sm_ExportedMethods sm @ sm_UnexportedMethods sm))"
    using ok by (simp add: group_ok_def GetExpectedOrder_def)
  from ordered_partitions_no_violation [OF this] show ?thesis
    by (simp add: checkStructMethods_def)
qed

subsection \<open>Groups do not share methods\<close>

lemma set_update_distinct:
  "distinct (map fst al) \<Longrightarrow>
     set (AList.update k v al) = insert (k, v) {e \<in> set al. fst e \<noteq> k}"
  by (induction al) (auto simp: rev_image_eqI)

lemma keys_update_present:
  "k \<in> fst ` set al \<Longrightarrow> map fst (AList.update k v al) = map fst al"
  by (simp add: update_keys)

lemma collect_specs_empty:
  assumes "distinct (map fst st)" and "\<forall>e \<in> set st. sm_Methods (snd e) = []"
  shows "distinct (map fst (collect_specs specs st))
         \<and> (\<forall>e \<in> set (collect_specs specs st). sm_Methods (snd e) = [])"
  using assms
proof (induction specs st rule: collect_specs.induct)
  case (2 name isStruct p e specs st)
  let ?new = "\<lparr> sm_StructName = name, sm_StructPos = p, sm_StructEnd = e,
                 sm_Methods = [], sm_Constructors = [], sm_ExportedMethods = [],
                 sm_UnexportedMethods = [] \<rparr>"
  let ?st = "if isStruct then AList.update name ?new st else st"
  have d: "distinct (map fst ?st)"
    using "2.prems"(1) by (simp add: distinct_update)
  have m: "\<forall>e \<in> set ?st. sm_Methods (snd e) = []"
    using "2.prems" by (auto simp: set_update_distinct)
  from "2.IH" [OF d m] show ?case by simp
qed simp_all

lemma collect_types_empty:
  assumes "distinct (map fst st)" and "\<forall>e \<in> set st. sm_Methods (snd e) = []"
  shows "distinct (map fst (collect_types ds st))
         \<and> (\<forall>e \<in> set (collect_types ds st). sm_Methods (snd e) = [])"
  using assms
proof (induction ds st rule: collect_types.induct)
  case (2 specs ds st)
  have "distinct (map fst (collect_specs specs st))
        \<and> (\<forall>e \<in> set (collect_specs specs st). sm_Methods (snd e) = [])"
    using "2.prems" by (rule collect_specs_empty)
  then show ?case using "2.IH" by simp
qed simp_all

lemma groups_separate_empty_methods:
  assumes "distinct (map fst st)" and "\<forall>e \<in> set st. sm_Methods (snd e) = []"
  shows "groups_separate st"
  using assms by (simp add: groups_separate_def group_positions_def)

text \<open>Attaching a method whose position no group has yet keeps the groups separate.\<close>

lemma attach_method_separate:
  assumes sep: "groups_separate st"
    and seen: "\<forall>e \<in> set st. set (group_positions (snd e)) \<subseteq> seen"
    and new: "fd_Pos fn \<notin> seen"
  shows "groups_separate (attach_method fn st)
         \<and> (\<forall>e \<in> set (attach_method fn st).
               set (group_positions (snd e)) \<subseteq> insert (fd_Pos fn) seen)"
proof -
  consider "attach_method fn st = st"
    | t sm where "(GetReceiverTypeName t, sm) \<in> set st"
        "attach_method fn st
           = AList.update (GetReceiverTypeName t)
               (sm\<lparr>sm_Methods := sm_Methods sm @ [newMethodInfo fn]\<rparr>) st"
    using attach_method_cases [of fn st] by blast
  then show ?thesis
  proof cases
    case 1
    then show ?thesis using sep seen by auto
  next
    case 2
    let ?k = "GetReceiverTypeName t"
    let ?sm = "sm\<lparr>sm_Methods := sm_Methods sm @ [newMethodInfo fn]\<rparr>"
    have dk: "distinct (map fst st)"
      using sep by (simp add: groups_separate_def)
    have set_eq: "set (attach_method fn st) = insert (?k, ?sm) {e \<in> set st. fst e \<noteq> ?k}"
      using 2(2) dk by (simp add: set_update_distinct)
    have keys: "map fst (attach_method fn st) = map fst st"
      using 2 by (simp add: keys_update_present rev_image_eqI)
    have pos_new: "group_positions ?sm = group_positions sm @ [fd_Pos fn]"
      by (simp add: group_positions_def newMethodInfo_def)
    have sm_seen: "set (group_positions sm) \<subseteq> seen"
      using seen 2(1) by fastforce
    have sm_dist: "distinct (group_positions sm)"
      using sep 2(1) by (fastforce simp: groups_separate_def)
    have d_new: "distinct (group_positions ?sm)"
      using sm_dist sm_seen new by (auto simp: pos_new)
    have others: "set (group_positions (snd e)) \<inter> set (group_positions ?sm) = {}"
      if "e \<in> set st" "fst e \<noteq> ?k" for e
    proof -
      have "set (group_positions (snd e)) \<inter> set (group_positions sm) = {}"
        using sep that 2(1) by (fastforce simp: groups_separate_def)
      moreover have "fd_Pos fn \<notin> set (group_positions (snd e))"
        using seen that(1) new by blast
      ultimately show ?thesis by (auto simp: pos_new)
    qed
    have old_dist: "distinct (group_positions (snd e))" if "e \<in> set st" for e
      using sep that unfolding groups_separate_def by blast
    have old_disj: "set (group_positions (snd e)) \<inter> set (group_positions (snd e')) = {}"
      if "e \<in> set st" "e' \<in> set st" "fst e \<noteq> fst e'" for e e'
      using sep that unfolding groups_separate_def by blast
    have all_dist: "distinct (group_positions (snd e))" if "e \<in> set (attach_method fn st)" for e
    proof -
      from that have "e = (?k, ?sm) \<or> e \<in> set st"
        unfolding set_eq by auto
      then show ?thesis
      proof
        assume "e = (?k, ?sm)"
        then show ?thesis using d_new by simp
      next
        assume "e \<in> set st"
        then show ?thesis by (rule old_dist)
      qed
    qed
    have all_disj: "set (group_positions (snd e)) \<inter> set (group_positions (snd e')) = {}"
      if mem: "e \<in> set (attach_method fn st)" "e' \<in> set (attach_method fn st)"
        and ne: "fst e \<noteq> fst e'"
      for e e'
    proof -
      consider (new_old) "e = (?k, ?sm)" "e' \<in> set st" "fst e' \<noteq> ?k"
        | (old_new) "e' = (?k, ?sm)" "e \<in> set st" "fst e \<noteq> ?k"
        | (old_old) "e \<in> set st" "e' \<in> set st"
        using mem ne unfolding set_eq by auto
      then show ?thesis
      proof cases
        case new_old
        then show ?thesis using others [of e'] by auto
      next
        case old_new
        then show ?thesis using others [of e] by auto
      next
        case old_old
        then show ?thesis using old_disj ne by blast
      qed
    qed
    have sep': "groups_separate (attach_method fn st)"
      unfolding groups_separate_def keys
      using dk all_dist all_disj by blast
    have seen': "\<forall>e \<in> set (attach_method fn st).
                   set (group_positions (snd e)) \<subseteq> insert (fd_Pos fn) seen"
      unfolding set_eq using seen sm_seen by (fastforce simp: pos_new)
    show ?thesis using sep' seen' by blast
  qed
qed

lemma collect_methods_separate:
  assumes "groups_separate st"
    and "\<forall>e \<in> set st. set (group_positions (snd e)) \<subseteq> seen"
    and "distinct (map fd_Pos (func_decls ds))"
    and "seen \<inter> fd_Pos ` set (func_decls ds) = {}"
  shows "groups_separate (collect_methods ds st)"
  using assms
proof (induction ds st arbitrary: seen rule: collect_methods.induct)
  case (1 st)
  then show ?case by simp
next
  case (2 fn ds st)
  have new: "fd_Pos fn \<notin> seen"
    using "2.prems"(4) by auto
  have step: "groups_separate (attach_method fn st)
         \<and> (\<forall>e \<in> set (attach_method fn st).
               set (group_positions (snd e)) \<subseteq> insert (fd_Pos fn) seen)"
    using attach_method_separate [OF "2.prems"(1) "2.prems"(2) new] .
  have d: "distinct (map fd_Pos (func_decls ds))"
    using "2.prems"(3) by simp
  have disj: "insert (fd_Pos fn) seen \<inter> fd_Pos ` set (func_decls ds) = {}"
    using "2.prems"(3,4) by auto
  show ?case
    using "2.IH" [of "insert (fd_Pos fn) seen"] step d disj by simp
next
  case (3 specs ds st)
  then show ?case by simp
qed

lemma distinct_map_sort_key:
  "distinct (map f (sort_key f xs)) = distinct (map f xs)"
  by (simp add: distinct_map)

lemma sort_and_categorize_positions:
  "set (group_positions (sort_and_categorize sm)) = set (group_positions sm)"
  "distinct (group_positions (sort_and_categorize sm)) = distinct (group_positions sm)"
  by (simp_all add: group_positions_def sort_and_categorize_def distinct_map_sort_key)

lemma groups_separate_sorted:
  assumes "groups_separate st"
  shows "groups_separate (map (\<lambda>(name, sm). (name, sort_and_categorize sm)) st)"
proof -
  have keys: "map fst (map (\<lambda>(name, sm). (name, sort_and_categorize sm)) st) = map fst st"
    by (induction st) auto
  show ?thesis
    unfolding groups_separate_def keys
    using assms
    by (auto simp: groups_separate_def sort_and_categorize_positions) fastforce+
qed

lemma collected_groups_separate:
  assumes "distinct (map fd_Pos (func_decls file))"
  shows "groups_separate (CollectStructMethods file)"
proof -
  have types: "distinct (map fst (collect_types file []))
               \<and> (\<forall>e \<in> set (collect_types file []). sm_Methods (snd e) = [])"
    by (rule collect_types_empty) simp_all
  then have sep0: "groups_separate (collect_types file [])"
    by (simp add: groups_separate_empty_methods)
  have seen0: "\<forall>e \<in> set (collect_types file []). set (group_positions (snd e)) \<subseteq> {}"
    using types by (simp add: group_positions_def)
  have "groups_separate (collect_methods file (collect_types file []))"
    using collect_methods_separate [OF sep0 seen0 assms] by simp
  then show ?thesis
    by (simp add: CollectStructMethods_def collectStructMethods_def groups_separate_sorted)
qed

section \<open>Method blocks\<close>

lemma GetMethodBlock_usable:
  "offsets_usable fn src \<Longrightarrow>
     GetMethodBlock format_Node fn src =
       \<lparr> mb_FuncDecl = fn, mb_Name = fd_Name fn, mb_StartPos = doc_start fn,
         mb_EndPos = fd_End fn,
         mb_RawText = TrimRight_newline (slice src (doc_start fn) (fd_End fn)) \<rparr>"
  by (simp add: GetMethodBlock_def offsets_usable_def doc_start_def Let_def)

lemma GetMethodBlock_fallback:
  "\<not> offsets_usable fn src \<Longrightarrow>
     GetMethodBlock format_Node fn src =
       \<lparr> mb_FuncDecl = fn, mb_Name = fd_Name fn, mb_StartPos = fd_Pos fn,
         mb_EndPos = fd_End fn, mb_RawText = TrimRight_newline (format_Node fn) \<rparr>"
  unfolding GetMethodBlock_def offsets_usable_def doc_start_def Let_def
  by (simp only: if_not_P if_False)

lemma GetMethodBlock_Name [simp]: "mb_Name (GetMethodBlock format_Node fn src) = fd_Name fn"
  by (simp add: GetMethodBlock_def Let_def)

lemma GetMethodBlock_EndPos [simp]: "mb_EndPos (GetMethodBlock format_Node fn src) = fd_End fn"
  by (simp add: GetMethodBlock_def Let_def)

text \<open>On the buffer it was parsed from, the documented method has the block that starts
  at its doc comment, with the bytes of the buffer as its text.\<close>

lemma GetMethodBlock_documented_example:
  "mb_StartPos (GetMethodBlock format_Node fn_doc src_doc) = 0
   \<and> mb_EndPos (GetMethodBlock format_Node fn_doc src_doc) = 37
   \<and> mb_RawText (GetMethodBlock format_Node fn_doc src_doc)
       = ''// Run starts.\<newline>func (s *Svc) Run() {}''"
  by (simp add: GetMethodBlock_def Let_def fn_doc_def src_doc_def slice_def
      TrimRight_newline_def)

text \<open>
  Claim C8. The code departs from the claim in the fallback. Here the method with the doc
  comment at offset 0, which starts at 15 and ends at 37, meets a buffer of 19 bytes, so
  its offsets are out of range. The block that \<^verbatim>\<open>GetMethodBlock\<close> returns starts at the
  function's own position, not at the doc comment, and its text is what the printer
  writes for the node, whatever the printer. \<^verbatim>\<open>format.Node\<close> writes the doc comment of a
  function declaration before the declaration, so the text of the block contains the
  original comment, although the source marks this branch
  \<^verbatim>\<open>// Fallback: format without comments\<close>, and the block does not start where its text
  starts.
\<close>

theorem GetMethodBlock_fallback_keeps_doc_comment:
  "fd_Doc fn_doc = Some \<lparr> cg_Pos = 0, cg_List = [''// Run starts.''] \<rparr>
   \<and> \<not> offsets_usable fn_doc src_cut
   \<and> mb_StartPos (GetMethodBlock format_Node fn_doc src_cut) = 15
   \<and> mb_EndPos (GetMethodBlock format_Node fn_doc src_cut) = 37
   \<and> mb_RawText (GetMethodBlock format_Node fn_doc src_cut)
       = TrimRight_newline (format_Node fn_doc)
   \<and> mb_RawText (GetMethodBlock print_node fn_doc src_cut)
       = ''// Run starts.\<newline>func Run()''"
proof -
  have out: "\<not> offsets_usable fn_doc src_cut"
    by (simp add: offsets_usable_def fn_doc_def src_cut_def doc_start_def)
  have printed: "TrimRight_newline (print_node fn_doc) = ''// Run starts.\<newline>func Run()''"
    by (simp add: TrimRight_newline_def print_node_def fn_doc_def)
  show ?thesis
    using out printed by (simp add: GetMethodBlock_fallback) (simp add: fn_doc_def)
qed


section \<open>Failures of the reorder engine\<close>

lemma collect_replacements_none_needed:
  "\<not> list_ex (\<lambda>(name, sm). NeedsReordering sm) structs \<Longrightarrow>
     collect_replacements format_Node src structs = Inr []"
  by (induction structs) auto

lemma ReorderStructMethods_error:
  assumes "collect_replacements format_Node src structs = Inl err"
  shows "ReorderStructMethods format_Node src structs = Some (Inl err)"
proof -
  have "list_ex (\<lambda>(name, sm). NeedsReordering sm) structs"
    using assms collect_replacements_none_needed [of structs format_Node src] by auto
  then show ?thesis
    using assms by (simp add: ReorderStructMethods_def)
qed

lemma ProcessFile_original:
  assumes "ProcessFile ParseFile format_Node cfg filePath (Inr src) = Some res"
  shows "r_OriginalContent res = Some src"
  using assms
  by (auto simp: ProcessFile_def Let_def split: sum.splits option.splits if_splits)

lemma ProcessFile_error_no_content:
  assumes "ProcessFile ParseFile format_Node cfg filePath readFile = Some res"
    and "r_Error res \<noteq> None"
  shows "r_FixedContent res = None \<and> \<not> r_Fixed res"
  using assms
  by (auto simp: ProcessFile_def Let_def split: sum.splits option.splits if_splits)

text \<open>
  Claim C9, as stated, fails: a group whose expected order has another length than its
  method list is not reported. \<^verbatim>\<open>NeedsReordering\<close> returns false for it, so the reorder
  engine skips it and returns the buffer as it is, without an error.
\<close>

theorem length_mismatch_ignored_counterexample:
  "length (GetExpectedOrder sm_uncategorized) = 0
   \<and> length (sm_Methods sm_uncategorized) = 2
   \<and> ReorderStructMethods print_node src_two [(''S'', sm_uncategorized)] = Some (Inr src_two)"
  by (simp add: ReorderStructMethods_def NeedsReordering_def GetExpectedOrder_def
      GetCurrentOrder_def sm_uncategorized_def)

text \<open>
  Claim C9, amended. \<^verbatim>\<open>buildSlotReplacements\<close> returns a count-mismatch error for a region
  whose expected order and blocks differ in length, but a group with such a mismatch never
  needs reordering, so it is skipped and not reported. When building the replacements of
  some group fails, \<^verbatim>\<open>ReorderStructMethods\<close> returns that error and no buffer: no splice
  has been applied. Whatever \<^verbatim>\<open>ProcessFile\<close> returns after reading the file holds the
  bytes read as original content, and when it reports an error the fixed content is nil and
  fixed is false.
\<close>

theorem reorder_failure_all_or_nothing:
  "(length (GetExpectedOrder (sr_sm region)) \<noteq> length (sr_blocks region) \<longrightarrow>
      buildSlotReplacements region
        = Inl (CountMismatch (length (GetExpectedOrder (sr_sm region)))
                 (length (sr_blocks region))))
   \<and> (length (GetExpectedOrder sm) \<noteq> length (sm_Methods sm) \<longrightarrow> \<not> NeedsReordering sm)
   \<and> (\<forall>err. collect_replacements format_Node src structs = Inl err \<longrightarrow>
          ReorderStructMethods format_Node src structs = Some (Inl err))
   \<and> (\<forall>res. ProcessFile ParseFile format_Node cfg filePath (Inr src) = Some res \<longrightarrow>
          r_OriginalContent res = Some src
          \<and> (r_Error res \<noteq> None \<longrightarrow> r_FixedContent res = None \<and> \<not> r_Fixed res))"
proof -
  have a: "buildSlotReplacements region
             = Inl (CountMismatch (length (GetExpectedOrder (sr_sm region)))
                      (length (sr_blocks region)))"
    if "length (GetExpectedOrder (sr_sm region)) \<noteq> length (sr_blocks region)"
    using that by (simp add: buildSlotReplacements_def)
  have b: "\<not> NeedsReordering sm" if "length (GetExpectedOrder sm) \<noteq> length (sm_Methods sm)"
    using that by (simp add: NeedsReordering_def GetCurrentOrder_def)
  show ?thesis
    using a b ReorderStructMethods_error ProcessFile_original ProcessFile_error_no_content
    by blast
qed

theorem reorder_failure_all_or_nothing_witness:
  "buildSlotReplacements \<lparr> sr_name = ''S'', sr_sm = sm_uncategorized,
       sr_blocks = [GetMethodBlock print_node fn_a src_two] \<rparr> = Inl (CountMismatch 0 1)
   \<and> \<not> NeedsReordering sm_uncategorized
   \<and> collect_replacements print_node src_two [(''S'', sm_foreign)]
       = Inl (SlotReplacementsFor ''S'' (MethodNotFound ''X''))
   \<and> ReorderStructMethods print_node src_two [(''S'', sm_foreign)]
       = Some (Inl (SlotReplacementsFor ''S'' (MethodNotFound ''X'')))
   \<and> ProcessFile (\<lambda>bytes. Inl ParseError) print_node cfg_fix ''s.go'' (Inr src_two)
       = Some \<lparr> r_FilePath = ''s.go'', r_Violations = 0, r_Fixed = False,
                r_OriginalContent = Some src_two, r_FixedContent = None,
                r_Error = Some (FailedToParse ParseError) \<rparr>"
proof -
  let ?region = "\<lparr> sr_name = ''S'', sr_sm = sm_uncategorized,
                    sr_blocks = [GetMethodBlock print_node fn_a src_two] \<rparr>"
  have len: "length (GetExpectedOrder (sr_sm ?region)) = 0 \<and> length (sr_blocks ?region) = 1
             \<and> length (GetExpectedOrder sm_uncategorized) \<noteq> length (sm_Methods sm_uncategorized)"
    by (simp add: GetExpectedOrder_def sm_uncategorized_def)
  have needs: "NeedsReordering sm_foreign"
    by (simp add: NeedsReordering_def GetExpectedOrder_def GetCurrentOrder_def
        sm_foreign_def sm_uncategorized_def newMethodInfo_def fn_a_def fn_B_def)
  have names: "byName_of (sr_blocks \<lparr> sr_name = ''S'', sr_sm = sm_foreign,
                  sr_blocks = map (\<lambda>mi. GetMethodBlock print_node (mi_FuncDecl mi) src_two)
                                (sm_Methods sm_foreign) \<rparr>) ''X'' = None"
    by (simp add: byName_of_def sm_foreign_def sm_uncategorized_def newMethodInfo_def
        fn_a_def fn_B_def)
  have col: "collect_replacements print_node src_two [(''S'', sm_foreign)]
               = Inl (SlotReplacementsFor ''S'' (MethodNotFound ''X''))"
    using needs names
    by (simp add: buildStructRegion_def buildSlotReplacements_def GetExpectedOrder_def
        sm_foreign_def sm_uncategorized_def newMethodInfo_def fn_a_def fn_B_def Let_def)
  have pf: "ProcessFile (\<lambda>bytes. Inl ParseError) print_node cfg_fix ''s.go'' (Inr src_two)
              = Some \<lparr> r_FilePath = ''s.go'', r_Violations = 0, r_Fixed = False,
                       r_OriginalContent = Some src_two, r_FixedContent = None,
                       r_Error = Some (FailedToParse ParseError) \<rparr>"
    by (simp add: ProcessFile_def)
  show ?thesis
    using reorder_failure_all_or_nothing
            [of ?region sm_uncategorized print_node src_two "[(''S'', sm_foreign)]"
                "\<lambda>bytes. Inl ParseError" cfg_fix "''s.go''"]
      len col pf
    by simp
qed


section \<open>The orchestrator\<close>

lemma foldl_check_unchanged:
  assumes "\<forall>e \<in> set structs. checkStructMethods cfg (snd e) report = report"
  shows "foldl (\<lambda>r (name, sm). checkStructMethods cfg sm r) report structs = report"
  using assms by (induction structs) (auto simp: case_prod_beta)

text \<open>Violations come only from groups that need reordering.\<close>

lemma Detect_nothing_to_reorder:
  assumes "\<not> list_ex (\<lambda>(name, sm). NeedsReordering sm) (CollectStructMethods file)"
  shows "rp_Violations (Detect cfg file filePath) = []"
proof -
  have "checkStructMethods cfg (snd e) report = report"
    if "e \<in> set (CollectStructMethods file)" for e report
  proof -
    obtain name sm where e: "e = (name, sm)" by (cases e)
    have "group_ok sm" and "\<not> NeedsReordering sm"
      using that assms collected_group_ok [of name sm "file"] e
      by (auto simp: list_ex_iff)
    then show ?thesis
      using in_order_no_violation e by simp
  qed
  then show ?thesis
    by (simp add: Detect_def Let_def foldl_check_unchanged)
qed

lemma fixFile_nothing_to_reorder:
  assumes "\<not> list_ex (\<lambda>(name, sm). NeedsReordering sm) (CollectStructMethods file)"
  shows "fixFile format_Node cfg file src report = Some (Inr src)"
proof -
  have "filter (\<lambda>(name, sm). NeedsReordering sm) (CollectStructMethods file) = []"
    using assms by (auto simp: list_ex_iff filter_empty_conv)
  then show ?thesis by (simp add: fixFile_def)
qed

text \<open>
  Claim C1. When detection yields no violations or fixing is not requested,
  \<^verbatim>\<open>ProcessFile\<close> returns the bytes read as original content, no fixed content and
  fixed = false. The same holds whenever no group of the file needs reordering, whatever
  the configuration: such a file has no violations (\<open>Detect_nothing_to_reorder\<close>), so the
  case of the claim in which violations exist and nothing is left to reorder is this one,
  and \<^verbatim>\<open>fixFile\<close>, asked about such a file, returns the source bytes themselves.
\<close>

theorem ProcessFile_returns_original:
  assumes "ParseFile src = Inr file"
    and "rp_Violations (Detect cfg file filePath) = [] \<or> \<not> Fix cfg
         \<or> \<not> list_ex (\<lambda>(name, sm). NeedsReordering sm) (CollectStructMethods file)"
  shows "ProcessFile ParseFile format_Node cfg filePath (Inr src)
           = Some \<lparr> r_FilePath = filePath,
                    r_Violations = length (rp_Violations (Detect cfg file filePath)),
                    r_Fixed = False, r_OriginalContent = Some src, r_FixedContent = None,
                    r_Error = None \<rparr>
         \<and> (\<not> list_ex (\<lambda>(name, sm). NeedsReordering sm) (CollectStructMethods file) \<longrightarrow>
               rp_Violations (Detect cfg file filePath) = []
               \<and> fixFile format_Node cfg file src (Detect cfg file filePath) = Some (Inr src))"
proof -
  have "rp_Violations (Detect cfg file filePath) = [] \<or> \<not> Fix cfg"
    using assms(2) Detect_nothing_to_reorder by blast
  then have "\<not> HasViolations (Detect cfg file filePath) \<or> \<not> Fix cfg"
    by (auto simp: HasViolations_def)
  then have "ProcessFile ParseFile format_Node cfg filePath (Inr src)
           = Some \<lparr> r_FilePath = filePath,
                    r_Violations = length (rp_Violations (Detect cfg file filePath)),
                    r_Fixed = False, r_OriginalContent = Some src, r_FixedContent = None,
                    r_Error = None \<rparr>"
    using assms(1) by (auto simp: ProcessFile_def Let_def)
  then show ?thesis
    using Detect_nothing_to_reorder fixFile_nothing_to_reorder by blast
qed


theorem ProcessFile_returns_original_witness:
  "ProcessFile (\<lambda>bytes. Inr file_two) print_node cfg_check ''s.go'' (Inr src_two)
     = Some \<lparr> r_FilePath = ''s.go'', r_Violations = 1, r_Fixed = False,
              r_OriginalContent = Some src_two, r_FixedContent = None, r_Error = None \<rparr>
   \<and> ProcessFile (\<lambda>bytes. Inr file_ordered) print_node cfg_fix ''s.go'' (Inr src_ordered)
     = Some \<lparr> r_FilePath = ''s.go'', r_Violations = 0, r_Fixed = False,
              r_OriginalContent = Some src_ordered, r_FixedContent = None, r_Error = None \<rparr>
   \<and> fixFile print_node cfg_fix file_ordered src_ordered (Detect cfg_fix file_ordered ''s.go'')
     = Some (Inr src_ordered)"
proof -
  have nofix: "\<not> Fix cfg_check"
    by (simp add: cfg_check_def)
  have one: "length (rp_Violations (Detect cfg_check file_two ''s.go'')) = 1"
    by (simp add: detector_defs example_defs)
  have ordered: "\<not> list_ex (\<lambda>(name, sm). NeedsReordering sm) (CollectStructMethods file_ordered)"
    by (simp add: detector_defs example_defs)
  show ?thesis
    using ProcessFile_returns_original
            [where ParseFile = "\<lambda>bytes. Inr file_two" and src = src_two and ?file = file_two
               and cfg = cfg_check and filePath = "''s.go''" and format_Node = print_node]
          ProcessFile_returns_original
            [where ParseFile = "\<lambda>bytes. Inr file_ordered" and src = src_ordered
               and ?file = file_ordered and cfg = cfg_fix and filePath = "''s.go''"
               and format_Node = print_node]
          nofix one ordered
    by simp
qed


section \<open>The detector\<close>

lemma constructor_step_violation:
  "constructor_step sm report c =
     (case constructor_violation sm c of None \<Rightarrow> report | Some v \<Rightarrow> AddViolation report v)"
  by (simp add: constructor_step_def constructor_violation_def split: option.splits)

lemma exported_step_violation:
  "exported_step sm report u =
     (case exported_violation sm u of None \<Rightarrow> report | Some v \<Rightarrow> AddViolation report v)"
  by (simp add: exported_step_def exported_violation_def split: option.splits)

lemma foldl_add_violations:
  assumes "\<And>r x. step r x = (case g x of None \<Rightarrow> r | Some v \<Rightarrow> AddViolation r v)"
  shows "foldl step report xs
           = report\<lparr>rp_Violations := rp_Violations report @ List.map_filter g xs\<rparr>"
proof (induction xs arbitrary: report)
  case Nil
  then show ?case by (simp add: List.map_filter_simps)
next
  case (Cons x xs)
  have "foldl step report (x # xs) = foldl step (step report x) xs"
    by simp
  also have "\<dots> = (step report x)\<lparr>rp_Violations :=
                        rp_Violations (step report x) @ List.map_filter g xs\<rparr>"
    by (rule Cons.IH)
  also have "\<dots> = report\<lparr>rp_Violations :=
                        rp_Violations report @ List.map_filter g (x # xs)\<rparr>"
    by (cases "g x") (simp_all add: assms AddViolation_def List.map_filter_simps)
  finally show ?case .
qed

lemma checkConstructorOrdering_violations:
  "checkConstructorOrdering sm report
     = report\<lparr>rp_Violations := rp_Violations report
                 @ List.map_filter (constructor_violation sm) (sm_Constructors sm)\<rparr>"
proof (cases "sm_Constructors sm = []")
  case True
  then show ?thesis
    by (simp add: checkConstructorOrdering_def List.map_filter_simps)
next
  case False
  then show ?thesis
    using foldl_add_violations [of "constructor_step sm" "constructor_violation sm"]
    by (simp add: checkConstructorOrdering_def constructor_step_violation)
qed

lemma checkExportedOrdering_violations:
  "checkExportedOrdering sm report
     = report\<lparr>rp_Violations := rp_Violations report
                 @ List.map_filter (exported_violation sm) (sm_UnexportedMethods sm)\<rparr>"
  using foldl_add_violations [of "exported_step sm" "exported_violation sm"]
  by (simp add: checkExportedOrdering_def exported_step_violation)

lemma checkStructMethods_violations:
  "checkStructMethods cfg sm report
     = report\<lparr>rp_Violations := rp_Violations report @ group_violations cfg sm\<rparr>"
  by (simp add: checkStructMethods_def group_violations_def Let_def
      checkConstructorOrdering_violations checkExportedOrdering_violations)

lemma foldl_checkStructMethods:
  "foldl (\<lambda>r (name, sm). checkStructMethods cfg sm r) report structs
     = report\<lparr>rp_Violations := rp_Violations report
                 @ concat (map (\<lambda>(name, sm). group_violations cfg sm) structs)\<rparr>"
proof (induction structs arbitrary: report)
  case Nil
  then show ?case by simp
next
  case (Cons e structs)
  let ?f = "\<lambda>r (name, sm). checkStructMethods cfg sm r"
  have "foldl ?f report (e # structs) = foldl ?f (?f report e) structs"
    by (simp only: foldl_Cons)
  also have "\<dots> = (?f report e)\<lparr>rp_Violations := rp_Violations (?f report e)
                        @ concat (map (\<lambda>(name, sm). group_violations cfg sm) structs)\<rparr>"
    by (rule Cons.IH)
  also have "\<dots> = report\<lparr>rp_Violations := rp_Violations report
                        @ concat (map (\<lambda>(name, sm). group_violations cfg sm) (e # structs))\<rparr>"
    by (cases e) (simp add: checkStructMethods_violations)
  finally show ?case .
qed

lemma Detect_violations:
  "rp_Violations (Detect cfg file filePath)
     = sort_key v_MethodPos
         (concat (map (\<lambda>(name, sm). group_violations cfg sm) (CollectStructMethods file)))"
  by (simp add: Detect_def Let_def foldl_checkStructMethods)


lemma map_filter_positions:
  assumes "distinct (map f xs)"
    and "\<forall>x \<in> set xs. \<forall>v. g x = Some v \<longrightarrow> k v = f x"
  shows "distinct (map k (List.map_filter g xs))
         \<and> set (map k (List.map_filter g xs)) \<subseteq> f ` set xs"
  using assms
proof (induction xs)
  case Nil
  then show ?case by (simp add: List.map_filter_simps)
next
  case (Cons x xs)
  then have IH: "distinct (map k (List.map_filter g xs))
                 \<and> set (map k (List.map_filter g xs)) \<subseteq> f ` set xs"
    by simp
  show ?case
  proof (cases "g x")
    case None
    then show ?thesis using IH by (auto simp: List.map_filter_simps)
  next
    case (Some v)
    then have "k v = f x" using Cons.prems(2) by simp
    moreover have "f x \<notin> f ` set xs" using Cons.prems(1) by auto
    ultimately show ?thesis using IH Some by (auto simp: List.map_filter_simps)
  qed
qed

lemma constructor_violation_pos:
  "constructor_violation sm c = Some v \<Longrightarrow> v_MethodPos v = fd_Pos (mi_FuncDecl c)"
  by (auto simp: constructor_violation_def newViolation_def)

lemma exported_violation_pos:
  "exported_violation sm u = Some v \<Longrightarrow> v_MethodPos v = fd_Pos (mi_FuncDecl u)"
  by (auto simp: exported_violation_def newViolation_def)

lemma group_violation_positions:
  assumes ok: "group_ok sm" and dist: "distinct (group_positions sm)"
  shows "distinct (map v_MethodPos (group_violations cfg sm))
         \<and> set (map v_MethodPos (group_violations cfg sm)) \<subseteq> set (group_positions sm)"
proof -
  let ?ms = "sm_Methods sm"
  let ?cv = "List.map_filter (constructor_violation sm) (sm_Constructors sm)"
  let ?ev = "List.map_filter (exported_violation sm) (sm_UnexportedMethods sm)"
  have all_ok: "\<forall>m \<in> set ?ms. method_ok m"
    using ok by (simp add: group_ok_def list_all_iff)
  have dms: "distinct (map mi_Pos ?ms)"
    using dist by (simp add: group_positions_def)
  have C: "sm_Constructors sm = filter mi_IsConstructor ?ms"
    and U: "sm_UnexportedMethods sm
              = filter (\<lambda>m. \<not> mi_IsConstructor m \<and> \<not> mi_IsExported m) ?ms"
    using ok by (simp_all add: group_ok_def)
  have c: "distinct (map v_MethodPos ?cv)
           \<and> set (map v_MethodPos ?cv) \<subseteq> mi_Pos ` set (sm_Constructors sm)"
  proof (rule map_filter_positions)
    show "distinct (map mi_Pos (sm_Constructors sm))"
      using dms by (simp add: C distinct_map_filter)
    show "\<forall>x \<in> set (sm_Constructors sm). \<forall>v. constructor_violation sm x = Some v
            \<longrightarrow> v_MethodPos v = mi_Pos x"
      using all_ok by (auto simp: C constructor_violation_pos method_ok_fields(4))
  qed
  have u: "distinct (map v_MethodPos ?ev)
           \<and> set (map v_MethodPos ?ev) \<subseteq> mi_Pos ` set (sm_UnexportedMethods sm)"
  proof (rule map_filter_positions)
    show "distinct (map mi_Pos (sm_UnexportedMethods sm))"
      using dms by (simp add: U distinct_map_filter)
    show "\<forall>x \<in> set (sm_UnexportedMethods sm). \<forall>v. exported_violation sm x = Some v
            \<longrightarrow> v_MethodPos v = mi_Pos x"
      using all_ok by (auto simp: U exported_violation_pos method_ok_fields(4))
  qed
  have inj: "inj_on mi_Pos (set ?ms)"
    using dms by (simp add: distinct_map)
  have disj: "mi_Pos ` set (sm_Constructors sm) \<inter> mi_Pos ` set (sm_UnexportedMethods sm) = {}"
  proof -
    have "set (sm_Constructors sm) \<inter> set (sm_UnexportedMethods sm) = {}"
      by (auto simp: C U)
    moreover have "set (sm_Constructors sm) \<subseteq> set ?ms" "set (sm_UnexportedMethods sm) \<subseteq> set ?ms"
      by (auto simp: C U)
    ultimately show ?thesis
      using inj by (metis image_empty inj_on_image_Int)
  qed
  have sub: "mi_Pos ` set (sm_Constructors sm) \<subseteq> set (group_positions sm)"
    "mi_Pos ` set (sm_UnexportedMethods sm) \<subseteq> set (group_positions sm)"
    by (auto simp: C U group_positions_def)
  have inter: "set (map v_MethodPos ?cv) \<inter> set (map v_MethodPos ?ev) = {}"
    using c u disj by blast
  have subs: "set (map v_MethodPos ?cv) \<subseteq> set (group_positions sm)"
    "set (map v_MethodPos ?ev) \<subseteq> set (group_positions sm)"
    using c u sub by blast+
  have both: "distinct (map v_MethodPos (?cv @ ?ev))
              \<and> set (map v_MethodPos (?cv @ ?ev)) \<subseteq> set (group_positions sm)"
    using c u inter subs by simp
  consider "group_violations cfg sm = []" | "group_violations cfg sm = ?cv"
    | "group_violations cfg sm = ?ev" | "group_violations cfg sm = ?cv @ ?ev"
    by (cases "length (sm_Methods sm) \<le> 1"; cases "CheckConstructor cfg";
        cases "CheckExported cfg"; simp add: group_violations_def)
  then show ?thesis
    using c u subs both by cases simp_all
qed

lemma groups_separate_tail: "groups_separate (e # st) \<Longrightarrow> groups_separate st"
  by (auto simp: groups_separate_def)

lemma separate_concat_distinct:
  assumes "groups_separate st"
    and "\<forall>e \<in> set st. distinct (f e) \<and> set (f e) \<subseteq> set (group_positions (snd e))"
  shows "distinct (concat (map f st))"
  using assms
proof (induction st)
  case Nil
  then show ?case by simp
next
  case (Cons e st)
  have tail: "distinct (concat (map f st))"
    using Cons.IH groups_separate_tail [OF Cons.prems(1)] Cons.prems(2) by simp
  have "set (f e) \<inter> set (f e') = {}" if "e' \<in> set st" for e'
  proof -
    have "fst e \<noteq> fst e'"
      using Cons.prems(1) that by (auto simp: groups_separate_def)
    then have "set (group_positions (snd e)) \<inter> set (group_positions (snd e')) = {}"
      using Cons.prems(1) that unfolding groups_separate_def by simp
    then show ?thesis
      using Cons.prems(2) that by fastforce
  qed
  then show ?case
    using tail Cons.prems(2) by auto
qed

text \<open>
  Claim C7. The violations that \<^verbatim>\<open>Detect\<close> returns are sorted ascending by the position of
  the offending method. Every violation is the one of a constructor of some group, naming
  the first exported method of the group positioned before it, or the one of an unexported
  method, naming the first exported method positioned after it
  (\<open>constructor_violation\<close>, \<open>exported_violation\<close>: the scan of the exported methods stops at
  the first match). No method has two violations: in a file whose function declarations
  have pairwise different positions, the positions of the reported methods are pairwise
  different.
\<close>

theorem Detect_sorted_once_per_method:
  "sorted (map v_MethodPos (rp_Violations (Detect cfg file filePath)))
   \<and> (distinct (map fd_Pos (func_decls file)) \<longrightarrow>
         distinct (map v_MethodPos (rp_Violations (Detect cfg file filePath))))
   \<and> (\<forall>v \<in> set (rp_Violations (Detect cfg file filePath)).
         \<exists>name sm m. (name, sm) \<in> set (CollectStructMethods file)
           \<and> (m \<in> set (sm_Constructors sm) \<and> constructor_violation sm m = Some v
              \<or> m \<in> set (sm_UnexportedMethods sm) \<and> exported_violation sm m = Some v))"
proof -
  let ?st = "CollectStructMethods file"
  let ?all = "concat (map (\<lambda>(name, sm). group_violations cfg sm) ?st)"
  have sorted: "sorted (map v_MethodPos (rp_Violations (Detect cfg file filePath)))"
    by (simp add: Detect_violations)
  have once: "distinct (map v_MethodPos (rp_Violations (Detect cfg file filePath)))"
    if d: "distinct (map fd_Pos (func_decls file))"
  proof -
    have sep: "groups_separate ?st"
      using d by (rule collected_groups_separate)
    have each: "\<forall>e \<in> set ?st.
                  distinct (map v_MethodPos (group_violations cfg (snd e)))
                  \<and> set (map v_MethodPos (group_violations cfg (snd e)))
                      \<subseteq> set (group_positions (snd e))"
    proof
      fix e assume e: "e \<in> set ?st"
      then have "group_ok (snd e)"
        using collected_group_ok [of "fst e" "snd e" "file"] by simp
      moreover have "distinct (group_positions (snd e))"
        using sep e unfolding groups_separate_def by blast
      ultimately show "distinct (map v_MethodPos (group_violations cfg (snd e)))
                  \<and> set (map v_MethodPos (group_violations cfg (snd e)))
                      \<subseteq> set (group_positions (snd e))"
        by (rule group_violation_positions)
    qed
    have "map v_MethodPos ?all
            = concat (map (\<lambda>e. map v_MethodPos (group_violations cfg (snd e))) ?st)"
      by (simp add: map_concat comp_def case_prod_beta)
    moreover have "distinct (concat (map (\<lambda>e. map v_MethodPos (group_violations cfg (snd e))) ?st))"
      using sep each by (rule separate_concat_distinct)
    ultimately show ?thesis
      by (simp add: Detect_violations distinct_map_sort_key)
  qed
  have first: "\<exists>name sm m. (name, sm) \<in> set ?st
           \<and> (m \<in> set (sm_Constructors sm) \<and> constructor_violation sm m = Some v
              \<or> m \<in> set (sm_UnexportedMethods sm) \<and> exported_violation sm m = Some v)"
    if "v \<in> set (rp_Violations (Detect cfg file filePath))" for v
  proof -
    from that obtain name sm where e: "(name, sm) \<in> set ?st"
      and v: "v \<in> set (group_violations cfg sm)"
      by (auto simp: Detect_violations)
    from v have "(\<exists>m \<in> set (sm_Constructors sm). constructor_violation sm m = Some v)
                 \<or> (\<exists>m \<in> set (sm_UnexportedMethods sm). exported_violation sm m = Some v)"
      by (auto simp: group_violations_def List.map_filter_def split: if_splits)
    then show ?thesis using e by blast
  qed
  show ?thesis using sorted once first by blast
qed


theorem Detect_sorted_once_per_method_witness:
  "map v_MethodPos (rp_Violations (Detect cfg_fix file_three ''s.go'')) = [16, 59]
   \<and> map v_Type (rp_Violations (Detect cfg_fix file_three ''s.go''))
       = [ViolationExported, ViolationConstructor]
   \<and> map (\<lambda>v. sf_TargetName (v_SuggestedFix v)) (rp_Violations (Detect cfg_fix file_three ''s.go''))
       = [''Run'', ''Run'']
   \<and> distinct (map fd_Pos (func_decls file_three))
   \<and> distinct (map v_MethodPos (rp_Violations (Detect cfg_fix file_three ''s.go'')))
   \<and> sorted (map v_MethodPos (rp_Violations (Detect cfg_fix file_three ''s.go'')))"
proof -
  have run: "map v_MethodPos (rp_Violations (Detect cfg_fix file_three ''s.go'')) = [16, 59]
     \<and> map v_Type (rp_Violations (Detect cfg_fix file_three ''s.go''))
         = [ViolationExported, ViolationConstructor]
     \<and> map (\<lambda>v. sf_TargetName (v_SuggestedFix v))
           (rp_Violations (Detect cfg_fix file_three ''s.go'')) = [''Run'', ''Run'']"
    by (simp add: detector_defs example_defs)
  have d: "distinct (map fd_Pos (func_decls file_three))"
    by (simp add: example_defs)
  show ?thesis
    using Detect_sorted_once_per_method [of cfg_fix file_three "''s.go''"] run d
    by blast
qed


section \<open>Splicing from the back\<close>

lemma spliceBytes_points:
  fixes buf t :: string and s e :: int
  assumes "0 \<le> s" and "s \<le> e" and "e \<le> int (length buf)"
  defines "out \<equiv> take (nat s) buf @ t @ drop (nat e) buf"
  shows "spliceBytes buf s e t = Some out"
    and "int (length out) = int (length buf) - (e - s) + int (length t)"
    and "\<And>x. 0 \<le> x \<Longrightarrow> x < s \<Longrightarrow> out ! nat x = buf ! nat x"
    and "\<And>x. e \<le> x \<Longrightarrow> x < int (length buf) \<Longrightarrow>
            out ! nat (x + (int (length t) - (e - s))) = buf ! nat x"
    and "\<And>i. 0 \<le> i \<Longrightarrow> i < int (length t) \<Longrightarrow> out ! nat (s + i) = t ! nat i"
proof -
  have lt: "length (take (nat s) buf) = nat s"
    using assms(1-3) by (auto simp: min_def)
  show "spliceBytes buf s e t = Some out"
    using assms(1-3) by (simp add: spliceBytes_def out_def)
  show "int (length out) = int (length buf) - (e - s) + int (length t)"
    using assms(1-3) by (auto simp: out_def min_def)
  show "out ! nat x = buf ! nat x" if "0 \<le> x" "x < s" for x
    using that assms(1-3) by (simp add: out_def nth_append)
  show "out ! nat (x + (int (length t) - (e - s))) = buf ! nat x"
    if "e \<le> x" "x < int (length buf)" for x
  proof -
    have idx: "nat (x + (int (length t) - (e - s))) = nat s + (length t + nat (x - e))"
      using that assms(1-3) by linarith
    have "out ! (nat s + (length t + nat (x - e))) = drop (nat e) buf ! nat (x - e)"
      unfolding out_def by (metis lt nth_append_length_plus)
    also have "\<dots> = buf ! (nat e + nat (x - e))"
      using that assms(1-3) by simp
    also have "nat e + nat (x - e) = nat x"
      using that assms(1-3) by linarith
    finally show ?thesis by (simp add: idx)
  qed
  show "out ! nat (s + i) = t ! nat i" if "0 \<le> i" "i < int (length t)" for i
  proof -
    have idx: "nat (s + i) = nat s + nat i"
      using that assms(1) by linarith
    have "out ! (nat s + nat i) = (t @ drop (nat e) buf) ! nat i"
      unfolding out_def by (metis lt nth_append_length_plus)
    also have "\<dots> = t ! nat i"
    proof -
      have "nat i < length t" using that by linarith
      then show ?thesis by (simp add: nth_append)
    qed
    finally show ?thesis by (simp add: idx)
  qed
qed

lemma shift_Nil [simp]: "shift [] x = 0"
  by (simp add: shift_def)

lemma shift_Cons:
  "shift (r # rs) x = (if rep_end r \<le> x then delta r else 0) + shift rs x"
  by (simp add: shift_def)

lemma shift_all:
  "\<forall>r \<in> set rs. rep_end r \<le> x \<Longrightarrow> shift rs x = sum_list (map delta rs)"
  by (induction rs) (simp_all add: shift_Cons)

text \<open>
  The splicing loop on a list in which every replacement lies entirely before the ones
  that precede it in the list, all of them below the bound \<open>B\<close>.
\<close>

lemma apply_splices_chain:
  assumes "sorted_wrt (\<lambda>a b. rep_end b \<le> rep_start a) ds"
    and "\<forall>r \<in> set ds. 0 \<le> rep_start r \<and> rep_start r < rep_end r \<and> rep_end r \<le> B"
    and "0 \<le> B" and "B \<le> int (length buf)"
  shows "\<exists>out. apply_splices buf ds = Some out
           \<and> int (length out) = int (length buf) + sum_list (map delta ds)
           \<and> 0 \<le> B + sum_list (map delta ds)
           \<and> (\<forall>x. B \<le> x \<and> x < int (length buf) \<longrightarrow>
                  out ! nat (x + sum_list (map delta ds)) = buf ! nat x)
           \<and> (\<forall>x. 0 \<le> x \<and> x < B \<and> (\<forall>r \<in> set ds. x < rep_start r \<or> rep_end r \<le> x) \<longrightarrow>
                  0 \<le> x + shift ds x \<and> x + shift ds x < int (length out)
                  \<and> out ! nat (x + shift ds x) = buf ! nat x)
           \<and> (\<forall>r \<in> set ds.
                  0 \<le> rep_start r + shift ds (rep_start r)
                  \<and> rep_start r + shift ds (rep_start r) + int (length (rep_text r))
                      \<le> int (length out)
                  \<and> (\<forall>i. 0 \<le> i \<and> i < int (length (rep_text r)) \<longrightarrow>
                         out ! nat (rep_start r + shift ds (rep_start r) + i)
                           = rep_text r ! nat i))"
  using assms
proof (induction ds arbitrary: buf B)
  case Nil
  then show ?case by simp
next
  case (Cons d ds)
  let ?s = "rep_start d" and ?e = "rep_end d" and ?t = "rep_text d"
  let ?buf' = "take (nat ?s) buf @ ?t @ drop (nat ?e) buf"
  let ?\<Sigma> = "sum_list (map delta ds)"
  have s0: "0 \<le> ?s" and se: "?s < ?e" and eB: "?e \<le> B"
    using Cons.prems(2) by simp_all
  have eL: "?e \<le> int (length buf)"
    using eB Cons.prems(4) by simp
  have se': "?s \<le> ?e" using se by simp
  note sp = spliceBytes_points [where t = ?t, OF s0 se' eL]
  have dd: "int (length ?t) - (?e - ?s) = delta d"
    by (simp add: delta_def)
  have len': "int (length ?buf') = int (length buf) + delta d"
    using sp(2) by (simp add: delta_def)
  have chain': "sorted_wrt (\<lambda>a b. rep_end b \<le> rep_start a) ds"
    using Cons.prems(1) by simp
  have below: "\<forall>r \<in> set ds. rep_end r \<le> ?s"
    using Cons.prems(1) by simp
  have rng': "\<forall>r \<in> set ds. 0 \<le> rep_start r \<and> rep_start r < rep_end r \<and> rep_end r \<le> ?s"
    using Cons.prems(2) below by simp
  have B': "?s \<le> int (length ?buf')"
    using len' eL se by (simp add: delta_def)
  from Cons.IH [OF chain' rng' s0 B'] obtain out where
    H: "apply_splices ?buf' ds = Some out
        \<and> int (length out) = int (length ?buf') + ?\<Sigma>
        \<and> 0 \<le> ?s + ?\<Sigma>
        \<and> (\<forall>x. ?s \<le> x \<and> x < int (length ?buf') \<longrightarrow> out ! nat (x + ?\<Sigma>) = ?buf' ! nat x)
        \<and> (\<forall>x. 0 \<le> x \<and> x < ?s \<and> (\<forall>r \<in> set ds. x < rep_start r \<or> rep_end r \<le> x) \<longrightarrow>
               0 \<le> x + shift ds x \<and> x + shift ds x < int (length out)
               \<and> out ! nat (x + shift ds x) = ?buf' ! nat x)
        \<and> (\<forall>r \<in> set ds.
               0 \<le> rep_start r + shift ds (rep_start r)
               \<and> rep_start r + shift ds (rep_start r) + int (length (rep_text r))
                   \<le> int (length out)
               \<and> (\<forall>i. 0 \<le> i \<and> i < int (length (rep_text r)) \<longrightarrow>
                      out ! nat (rep_start r + shift ds (rep_start r) + i)
                        = rep_text r ! nat i))"
    by (elim exE)
  note run = H [THEN conjunct1]
  note I1 = H [THEN conjunct2, THEN conjunct1]
  note I0 = H [THEN conjunct2, THEN conjunct2, THEN conjunct1]
  note I2all = H [THEN conjunct2, THEN conjunct2, THEN conjunct2, THEN conjunct1]
  note I3all = H [THEN conjunct2, THEN conjunct2, THEN conjunct2, THEN conjunct2, THEN conjunct1]
  note I4all = H [THEN conjunct2, THEN conjunct2, THEN conjunct2, THEN conjunct2, THEN conjunct2]
  have I2: "out ! nat (y + ?\<Sigma>) = ?buf' ! nat y" if "?s \<le> y" "y < int (length ?buf')" for y
    using I2all that by blast
  have I3: "0 \<le> x + shift ds x \<and> x + shift ds x < int (length out)
               \<and> out ! nat (x + shift ds x) = ?buf' ! nat x"
    if "0 \<le> x" "x < ?s" "\<forall>r \<in> set ds. x < rep_start r \<or> rep_end r \<le> x" for x
    using I3all that by blast
  have I4: "0 \<le> rep_start r + shift ds (rep_start r)
               \<and> rep_start r + shift ds (rep_start r) + int (length (rep_text r))
                   \<le> int (length out)
               \<and> (\<forall>i. 0 \<le> i \<and> i < int (length (rep_text r)) \<longrightarrow>
                      out ! nat (rep_start r + shift ds (rep_start r) + i)
                        = rep_text r ! nat i)"
    if "r \<in> set ds" for r
    using I4all that by (rule bspec)
  have G0: "apply_splices buf (d # ds) = Some out"
    using sp(1) run by simp
  have G1: "int (length out) = int (length buf) + sum_list (map delta (d # ds))"
    using I1 len' by simp
  have G1': "0 \<le> B + sum_list (map delta (d # ds))"
    using I0 eB by (simp add: delta_def)
  have after: "0 \<le> x + (delta d + ?\<Sigma>) \<and> x + (delta d + ?\<Sigma>) < int (length out)
               \<and> out ! nat (x + (delta d + ?\<Sigma>)) = buf ! nat x"
    if "?e \<le> x" "x < int (length buf)" for x
  proof -
    have y1: "?s \<le> x + delta d"
      using that se by (simp add: delta_def)
    have y2: "x + delta d < int (length ?buf')"
      using that len' by simp
    have "out ! nat ((x + delta d) + ?\<Sigma>) = ?buf' ! nat (x + delta d)"
      using I2 [OF y1 y2] .
    also have "\<dots> = buf ! nat x"
      using sp(4) [OF that] by (simp add: dd)
    finally have "out ! nat (x + (delta d + ?\<Sigma>)) = buf ! nat x"
      by (simp add: add.assoc)
    moreover have "0 \<le> x + (delta d + ?\<Sigma>)"
      using y1 I0 by linarith
    moreover have "x + (delta d + ?\<Sigma>) < int (length out)"
      using y2 I1 by linarith
    ultimately show ?thesis by blast
  qed
  have G2: "out ! nat (x + sum_list (map delta (d # ds))) = buf ! nat x"
    if "B \<le> x" "x < int (length buf)" for x
    using after [of x] that eB by simp
  have G3: "0 \<le> x + shift (d # ds) x \<and> x + shift (d # ds) x < int (length out)
            \<and> out ! nat (x + shift (d # ds) x) = buf ! nat x"
    if "0 \<le> x" "x < B" "\<forall>r \<in> set (d # ds). x < rep_start r \<or> rep_end r \<le> x" for x
  proof (cases "?e \<le> x")
    case True
    have "\<forall>r \<in> set ds. rep_end r \<le> x"
      using below se True by fastforce
    then have "shift (d # ds) x = delta d + ?\<Sigma>"
      using True by (simp add: shift_Cons shift_all)
    moreover have "x < int (length buf)"
      using that(2) Cons.prems(4) by simp
    ultimately show ?thesis using after [OF True] by simp
  next
    case False
    then have xs: "x < ?s" using that(3) by auto
    have "shift (d # ds) x = shift ds x"
      using False by (simp add: shift_Cons)
    moreover have "0 \<le> x + shift ds x \<and> x + shift ds x < int (length out)
               \<and> out ! nat (x + shift ds x) = ?buf' ! nat x"
      using I3 [OF that(1) xs] that(3) by simp
    moreover have "?buf' ! nat x = buf ! nat x"
      using sp(3) [OF that(1) xs] .
    ultimately show ?thesis by simp
  qed
  have G4: "0 \<le> rep_start r + shift (d # ds) (rep_start r)
            \<and> rep_start r + shift (d # ds) (rep_start r) + int (length (rep_text r))
                \<le> int (length out)
            \<and> (\<forall>i. 0 \<le> i \<and> i < int (length (rep_text r)) \<longrightarrow>
                   out ! nat (rep_start r + shift (d # ds) (rep_start r) + i)
                     = rep_text r ! nat i)"
    if "r \<in> set (d # ds)" for r
  proof (cases "r = d")
    case True
    have sh: "shift (d # ds) ?s = ?\<Sigma>"
      using se below by (simp add: shift_Cons shift_all)
    have fits: "?s + ?\<Sigma> + int (length ?t) \<le> int (length out)"
      using I1 len' eL by (simp add: delta_def)
    have "out ! nat (?s + ?\<Sigma> + i) = ?t ! nat i"
      if i: "0 \<le> i" "i < int (length ?t)" for i
    proof -
      have "out ! nat ((?s + i) + ?\<Sigma>) = ?buf' ! nat (?s + i)"
      proof (rule I2)
        show "?s \<le> ?s + i" using i(1) by simp
        show "?s + i < int (length ?buf')"
          using i(2) len' eL by (simp add: delta_def)
      qed
      moreover have "?buf' ! nat (?s + i) = ?t ! nat i"
        using sp(5) [OF i] .
      ultimately show ?thesis
        by (simp add: add.assoc add.commute add.left_commute)
    qed
    then show ?thesis
      using True sh I0 fits by simp
  next
    case False
    then have r: "r \<in> set ds" using that by simp
    then have "rep_start r < ?e"
      using rng' se by fastforce
    then have "shift (d # ds) (rep_start r) = shift ds (rep_start r)"
      by (simp add: shift_Cons)
    then show ?thesis using I4 [OF r] by simp
  qed
  have G2all: "\<forall>x. B \<le> x \<and> x < int (length buf) \<longrightarrow>
                  out ! nat (x + sum_list (map delta (d # ds))) = buf ! nat x"
    using G2 by simp
  have G3all: "\<forall>x. 0 \<le> x \<and> x < B
                    \<and> (\<forall>r \<in> set (d # ds). x < rep_start r \<or> rep_end r \<le> x) \<longrightarrow>
                  0 \<le> x + shift (d # ds) x \<and> x + shift (d # ds) x < int (length out)
                  \<and> out ! nat (x + shift (d # ds) x) = buf ! nat x"
    using G3 by (intro allI impI) (elim conjE)
  have G4all: "\<forall>r \<in> set (d # ds).
                  0 \<le> rep_start r + shift (d # ds) (rep_start r)
                  \<and> rep_start r + shift (d # ds) (rep_start r) + int (length (rep_text r))
                      \<le> int (length out)
                  \<and> (\<forall>i. 0 \<le> i \<and> i < int (length (rep_text r)) \<longrightarrow>
                         out ! nat (rep_start r + shift (d # ds) (rep_start r) + i)
                           = rep_text r ! nat i)"
    using G4 by (intro ballI)
  show ?case
    by (rule exI [of _ out]) (intro conjI G0 G1 G1' G2all G3all G4all)
qed

subsection \<open>The order of application\<close>

lemma sum_list_insort_key:
  fixes f :: "'a \<Rightarrow> int"
  shows "sum_list (map f (insort_key k x xs)) = f x + sum_list (map f xs)"
  by (induction xs) simp_all

lemma sum_list_sort_key:
  fixes f :: "'a \<Rightarrow> int"
  shows "sum_list (map f (sort_key k xs)) = sum_list (map f xs)"
  by (induction xs) (simp_all add: sum_list_insort_key)

lemma set_sort_descending [simp]: "set (sort_descending reps) = set reps"
  by (simp add: sort_descending_def)

lemma sum_delta_sort_descending:
  "sum_list (map delta (sort_descending reps)) = sum_list (map delta reps)"
  by (simp add: sort_descending_def sum_list_sort_key)

lemma shift_sort_descending: "shift (sort_descending reps) x = shift reps x"
  by (simp add: shift_def sort_descending_def filter_sort sum_list_sort_key)

lemma sort_descending_sorted:
  "sorted_wrt (\<lambda>a b. rep_start a \<ge> rep_start b) (sort_descending reps)"
proof -
  have "sorted (map (\<lambda>rep. - rep_start rep) (sort_descending reps))"
    by (simp add: sort_descending_def)
  then show ?thesis
    by (simp add: sorted_map)
qed

lemma sort_descending_strict:
  assumes "distinct (map rep_start reps)"
  shows "sorted_wrt (\<lambda>a b. rep_start a > rep_start b) (sort_descending reps)"
proof -
  let ?k = "\<lambda>rep. - rep_start rep"
  have "map ?k reps = map uminus (map rep_start reps)"
    by simp
  then have "distinct (map ?k reps)"
    using assms by (simp add: distinct_map inj_on_def del: map_map)
  then have "distinct (map ?k (sort_descending reps))"
    by (simp add: sort_descending_def distinct_map)
  moreover have "sorted (map ?k (sort_descending reps))"
    by (simp add: sort_descending_def)
  ultimately have "sorted_wrt (<) (map ?k (sort_descending reps))"
    by (simp add: strict_sorted_iff)
  then show ?thesis
    by (simp add: sorted_wrt_map)
qed

lemma sort_descending_chain:
  assumes "slots_disjoint reps src"
  shows "sorted_wrt (\<lambda>a b. rep_end b \<le> rep_start a) (sort_descending reps)"
proof (rule sorted_wrt_mono_rel [OF _ sort_descending_strict])
  show "distinct (map rep_start reps)"
    using assms by (simp add: slots_disjoint_def)
  fix a b
  assume "a \<in> set (sort_descending reps)" "b \<in> set (sort_descending reps)"
    and "rep_start b < rep_start a"
  then show "rep_end b \<le> rep_start a"
    using assms by (simp add: slots_disjoint_def)
qed

text \<open>Disjoint replacements, applied from the back: no panic, and every byte outside the
  slots and every replacement text is found at its shifted offset.\<close>

lemma apply_splices_disjoint:
  assumes "slots_disjoint reps src"
  shows "\<exists>out. apply_splices src (sort_descending reps) = Some out
           \<and> int (length out) = int (length src) + sum_list (map delta reps)
           \<and> (\<forall>x. 0 \<le> x \<and> x < int (length src)
                   \<and> (\<forall>r \<in> set reps. x < rep_start r \<or> rep_end r \<le> x) \<longrightarrow>
                  0 \<le> x + shift reps x \<and> x + shift reps x < int (length out)
                  \<and> out ! nat (x + shift reps x) = src ! nat x)
           \<and> (\<forall>r \<in> set reps.
                  0 \<le> rep_start r + shift reps (rep_start r)
                  \<and> rep_start r + shift reps (rep_start r) + int (length (rep_text r))
                      \<le> int (length out)
                  \<and> (\<forall>i. 0 \<le> i \<and> i < int (length (rep_text r)) \<longrightarrow>
                         out ! nat (rep_start r + shift reps (rep_start r) + i)
                           = rep_text r ! nat i))"
proof -
  have rng: "\<forall>r \<in> set (sort_descending reps).
               0 \<le> rep_start r \<and> rep_start r < rep_end r \<and> rep_end r \<le> int (length src)"
    using assms by (simp add: slots_disjoint_def)
  have nonneg: "0 \<le> int (length src)" by simp
  from apply_splices_chain [OF sort_descending_chain [OF assms] rng nonneg order_refl]
  obtain out where
    H: "apply_splices src (sort_descending reps) = Some out
        \<and> int (length out) = int (length src) + sum_list (map delta reps)
        \<and> 0 \<le> int (length src) + sum_list (map delta reps)
        \<and> (\<forall>x. int (length src) \<le> x \<and> x < int (length src) \<longrightarrow>
               out ! nat (x + sum_list (map delta reps)) = src ! nat x)
        \<and> (\<forall>x. 0 \<le> x \<and> x < int (length src)
                \<and> (\<forall>r \<in> set reps. x < rep_start r \<or> rep_end r \<le> x) \<longrightarrow>
               0 \<le> x + shift reps x \<and> x + shift reps x < int (length out)
               \<and> out ! nat (x + shift reps x) = src ! nat x)
        \<and> (\<forall>r \<in> set reps.
               0 \<le> rep_start r + shift reps (rep_start r)
               \<and> rep_start r + shift reps (rep_start r) + int (length (rep_text r))
                   \<le> int (length out)
               \<and> (\<forall>i. 0 \<le> i \<and> i < int (length (rep_text r)) \<longrightarrow>
                      out ! nat (rep_start r + shift reps (rep_start r) + i)
                        = rep_text r ! nat i))"
    unfolding sum_delta_sort_descending shift_sort_descending set_sort_descending
    by (elim exE)
  show ?thesis
    by (rule exI [of _ out])
      (intro conjI H [THEN conjunct1] H [THEN conjunct2, THEN conjunct1]
         H [THEN conjunct2, THEN conjunct2, THEN conjunct2, THEN conjunct2, THEN conjunct1]
         H [THEN conjunct2, THEN conjunct2, THEN conjunct2, THEN conjunct2, THEN conjunct2])
qed

text \<open>A run of bytes given index by index is a slice.\<close>

lemma slice_eqI:
  assumes "0 \<le> a" and "a + int (length t) \<le> int (length out)"
    and "\<forall>i. 0 \<le> i \<and> i < int (length t) \<longrightarrow> out ! nat (a + i) = t ! nat i"
  shows "slice out a (a + int (length t)) = t"
proof (rule nth_equalityI)
  show len: "length (slice out a (a + int (length t))) = length t"
    using assms(1,2) by (auto simp: slice_def min_def)
  fix i assume "i < length (slice out a (a + int (length t)))"
  then have i: "i < length t" using len by simp
  have "slice out a (a + int (length t)) ! i = out ! (nat a + i)"
    using i assms(1,2) by (simp add: slice_def)
  also have "nat a + i = nat (a + int i)"
    using assms(1) by linarith
  also have "out ! nat (a + int i) = t ! nat (int i)"
    using assms(3) i by simp
  finally show "slice out a (a + int (length t)) ! i = t ! i" by simp
qed

subsection \<open>The replacements of a collected group\<close>

lemma byName_of_map_of:
  "byName_of blocks = map_of (rev (map (\<lambda>b. (mb_Name b, mb_RawText b)) blocks))"
proof -
  have "foldl (\<lambda>m b. m(mb_Name b \<mapsto> mb_RawText b)) m blocks
          = m ++ map_of (rev (map (\<lambda>b. (mb_Name b, mb_RawText b)) blocks))" for m
    by (induction blocks arbitrary: m) simp_all
  then show ?thesis by (simp add: byName_of_def)
qed

lemma byName_of_defined:
  assumes "b \<in> set blocks"
  shows "byName_of blocks (mb_Name b) \<noteq> None"
proof -
  have "mb_Name b \<in> fst ` set (rev (map (\<lambda>b. (mb_Name b, mb_RawText b)) blocks))"
    using assms by force
  then show ?thesis
    by (simp only: byName_of_map_of map_of_eq_None_iff not_not)
qed

lemma byName_of_distinct:
  assumes "distinct (map mb_Name blocks)" and "b \<in> set blocks"
  shows "byName_of blocks (mb_Name b) = Some (mb_RawText b)"
proof -
  let ?kvs = "rev (map (\<lambda>b. (mb_Name b, mb_RawText b)) blocks)"
  have "map fst ?kvs = rev (map mb_Name blocks)"
    by (simp add: rev_map comp_def)
  then have "distinct (map fst ?kvs)"
    using assms(1) by simp
  moreover have "(mb_Name b, mb_RawText b) \<in> set ?kvs"
    using assms(2) by force
  ultimately show ?thesis
    by (simp add: byName_of_map_of)
qed

lemma slot_loop_total:
  assumes "length blocks = length expected"
    and "\<forall>e \<in> set expected. byName (mi_Name e) \<noteq> None"
  shows "slot_loop byName blocks expected
           = Inr (map (\<lambda>(block, e).
                    \<lparr> rep_start = mb_StartPos block, rep_end = mb_EndPos block,
                      rep_text = (case byName (mi_Name e) of Some text \<Rightarrow> text | None \<Rightarrow> []) \<rparr>)
                   (zip blocks expected))"
  using assms
proof (induction blocks expected rule: list_induct2)
  case Nil
  then show ?case by simp
next
  case (Cons b bs e es)
  then show ?case by (cases "byName (mi_Name e)") simp_all
qed

lemma group_ok_expected_set:
  "group_ok sm \<Longrightarrow> set (GetExpectedOrder sm) = set (sm_Methods sm)"
  by (auto simp: group_ok_def GetExpectedOrder_def)

lemma group_replacements_built:
  assumes ok: "group_ok sm" and ne: "sm_Methods sm \<noteq> []"
  shows "\<exists>region. buildStructRegion format_Node sm src = Inr region
           \<and> sr_blocks region = group_blocks format_Node src sm
           \<and> buildSlotReplacements region = Inr (group_replacements format_Node src sm)"
proof -
  let ?blocks = "group_blocks format_Node src sm"
  let ?region = "\<lparr> sr_name = sm_StructName sm, sr_sm = sm, sr_blocks = ?blocks \<rparr>"
  have reg: "buildStructRegion format_Node sm src = Inr ?region"
    using ne by (simp add: buildStructRegion_def group_blocks_def)
  have len: "length (GetExpectedOrder sm) = length ?blocks"
    using ok by (simp add: group_ok_expected_length group_blocks_def)
  have names: "\<forall>e \<in> set (GetExpectedOrder sm). byName_of ?blocks (mi_Name e) \<noteq> None"
  proof
    fix e assume "e \<in> set (GetExpectedOrder sm)"
    then have e: "e \<in> set (sm_Methods sm)"
      using ok by (simp add: group_ok_expected_set)
    then have "method_ok e"
      using ok by (simp add: group_ok_def list_all_iff)
    then have n: "mi_Name e = mb_Name (GetMethodBlock format_Node (mi_FuncDecl e) src)"
      by (simp add: method_ok_fields(3))
    have "GetMethodBlock format_Node (mi_FuncDecl e) src \<in> set ?blocks"
      using e by (simp add: group_blocks_def)
    then show "byName_of ?blocks (mi_Name e) \<noteq> None"
      unfolding n by (rule byName_of_defined)
  qed
  have "buildSlotReplacements ?region = Inr (group_replacements format_Node src sm)"
    using len names slot_loop_total [of ?blocks "GetExpectedOrder sm" "byName_of ?blocks"]
    by (simp add: buildSlotReplacements_def group_replacements_def Let_def)
  then show ?thesis using reg by simp
qed

lemma NeedsReordering_nonempty: "NeedsReordering sm \<Longrightarrow> sm_Methods sm \<noteq> []"
  by (auto simp: NeedsReordering_def split: if_splits)

lemma collect_replacements_closed:
  assumes "\<forall>e \<in> set structs. group_ok (snd e)"
  shows "collect_replacements format_Node src structs
           = Inr (concat (map (\<lambda>(name, sm). group_replacements format_Node src sm)
                            (filter (\<lambda>(name, sm). NeedsReordering sm) structs)))"
  using assms
proof (induction structs)
  case Nil
  then show ?case by simp
next
  case (Cons e structs)
  obtain name sm where e: "e = (name, sm)" by (cases e)
  have IH: "collect_replacements format_Node src structs
           = Inr (concat (map (\<lambda>(name, sm). group_replacements format_Node src sm)
                            (filter (\<lambda>(name, sm). NeedsReordering sm) structs)))"
    using Cons by simp
  show ?case
  proof (cases "NeedsReordering sm")
    case False
    then show ?thesis using IH e by simp
  next
    case True
    have "group_ok sm" using Cons.prems e by simp
    from group_replacements_built [OF this NeedsReordering_nonempty [OF True], of format_Node src]
    obtain region where "buildStructRegion format_Node sm src = Inr region"
      and "buildSlotReplacements region = Inr (group_replacements format_Node src sm)"
      by blast
    then show ?thesis using True IH e by simp
  qed
qed

subsection \<open>The replacements of a parsed file are disjoint\<close>

lemma attach_method_origin:
  assumes "\<forall>e \<in> set st. \<forall>m \<in> set (sm_Methods (snd e)). mi_FuncDecl m \<in> D" and "fn \<in> D"
  shows "\<forall>e \<in> set (attach_method fn st). \<forall>m \<in> set (sm_Methods (snd e)). mi_FuncDecl m \<in> D"
proof -
  consider "attach_method fn st = st"
    | t sm where "(GetReceiverTypeName t, sm) \<in> set st"
        "attach_method fn st
           = AList.update (GetReceiverTypeName t)
               (sm\<lparr>sm_Methods := sm_Methods sm @ [newMethodInfo fn]\<rparr>) st"
    using attach_method_cases [of fn st] by blast
  then show ?thesis
  proof cases
    case 1
    then show ?thesis using assms by simp
  next
    case 2
    have "\<forall>m \<in> set (sm_Methods sm). mi_FuncDecl m \<in> D"
      using assms(1) 2(1) by fastforce
    then have "\<forall>m \<in> set (sm_Methods (sm\<lparr>sm_Methods := sm_Methods sm @ [newMethodInfo fn]\<rparr>)).
                 mi_FuncDecl m \<in> D"
      using assms(2) by (auto simp: newMethodInfo_def)
    then show ?thesis
      using assms(1) 2(2)
        set_update_subset [of "GetReceiverTypeName t"
          "sm\<lparr>sm_Methods := sm_Methods sm @ [newMethodInfo fn]\<rparr>" st]
      by (metis (no_types, lifting) insertE snd_conv subsetD)
  qed
qed

lemma collect_methods_origin:
  assumes "\<forall>e \<in> set st. \<forall>m \<in> set (sm_Methods (snd e)). mi_FuncDecl m \<in> D"
    and "set (func_decls ds) \<subseteq> D"
  shows "\<forall>e \<in> set (collect_methods ds st). \<forall>m \<in> set (sm_Methods (snd e)). mi_FuncDecl m \<in> D"
  using assms
proof (induction ds st rule: collect_methods.induct)
  case (2 fn ds st)
  have "\<forall>e \<in> set (attach_method fn st). \<forall>m \<in> set (sm_Methods (snd e)). mi_FuncDecl m \<in> D"
    using "2.prems" by (intro attach_method_origin) simp_all
  then show ?case using "2.IH" "2.prems"(2) by simp
qed simp_all

lemma collected_methods_from_file:
  assumes "(name, sm) \<in> set (CollectStructMethods file)" and "m \<in> set (sm_Methods sm)"
  shows "mi_FuncDecl m \<in> set (func_decls file)"
proof -
  have "\<forall>e \<in> set (collect_types file []). sm_Methods (snd e) = []"
    using collect_types_empty [of "[]" "file"] by simp
  then have "\<forall>e \<in> set (collect_types file []).
               \<forall>m \<in> set (sm_Methods (snd e)). mi_FuncDecl m \<in> set (func_decls file)"
    by simp
  then have all: "\<forall>e \<in> set (collect_methods file (collect_types file [])).
               \<forall>m \<in> set (sm_Methods (snd e)). mi_FuncDecl m \<in> set (func_decls file)"
    by (rule collect_methods_origin) simp
  obtain sm0 where "(name, sm0) \<in> set (collect_methods file (collect_types file []))"
    and "sm = sort_and_categorize sm0"
    using assms(1) by (auto simp: CollectStructMethods_def collectStructMethods_def)
  then show ?thesis
    using all assms(2) by (fastforce simp: sort_and_categorize_def)
qed

lemma parsed_layout_usable:
  "parsed_layout file src \<Longrightarrow> f \<in> set (func_decls file) \<Longrightarrow> offsets_usable f src"
  by (auto simp: parsed_layout_def offsets_usable_def doc_start_def split: option.splits)

lemma doc_start_le: "doc_start f \<le> fd_Pos f"
  by (simp add: doc_start_def split: option.splits)

lemma parsed_layout_order:
  assumes "parsed_layout file src"
    and "f \<in> set (func_decls file)" and "g \<in> set (func_decls file)"
    and "doc_start f < doc_start g"
  shows "fd_Pos f < fd_Pos g \<and> fd_End f \<le> doc_start g"
proof -
  have nonempty: "fd_Pos g < fd_End g"
    using assms(1,3) by (simp add: parsed_layout_def)
  have "\<not> fd_Pos g < fd_Pos f"
  proof
    assume "fd_Pos g < fd_Pos f"
    then have "fd_End g \<le> doc_start f"
      using assms(1-3) unfolding parsed_layout_def by blast
    then show False
      using doc_start_le [of g] nonempty assms(4) by linarith
  qed
  moreover have "fd_Pos f \<noteq> fd_Pos g"
  proof
    assume "fd_Pos f = fd_Pos g"
    moreover have "inj_on fd_Pos (set (func_decls file))"
      using assms(1) by (simp add: parsed_layout_def distinct_map)
    ultimately have "f = g"
      using assms(2,3) by (simp add: inj_on_def)
    then show False using assms(4) by simp
  qed
  ultimately have lt: "fd_Pos f < fd_Pos g" by linarith
  then show ?thesis
    using assms(1-3) unfolding parsed_layout_def by blast
qed

lemma groups_separate_filter:
  assumes "groups_separate st"
  shows "groups_separate (filter P st)"
  using assms by (auto simp: groups_separate_def distinct_map_filter)

lemma distinct_map_transfer:
  assumes "distinct (map f xs)"
    and "\<And>a b. a \<in> set xs \<Longrightarrow> b \<in> set xs \<Longrightarrow> g a = g b \<Longrightarrow> f a = f b"
  shows "distinct (map g xs)"
proof -
  have "distinct xs" and inj: "inj_on f (set xs)"
    using assms(1) by (simp_all add: distinct_map)
  have "inj_on g (set xs)"
  proof (rule inj_onI)
    fix a b assume "a \<in> set xs" "b \<in> set xs" "g a = g b"
    then have "f a = f b" by (rule assms(2))
    then show "a = b" using inj \<open>a \<in> set xs\<close> \<open>b \<in> set xs\<close> by (simp add: inj_on_def)
  qed
  then show ?thesis using \<open>distinct xs\<close> by (simp add: distinct_map)
qed

text \<open>The methods of the groups that are reordered, and where their replacements lie.\<close>

lemma group_replacements_ranges:
  assumes ok: "group_ok sm"
    and usable: "\<forall>m \<in> set (sm_Methods sm). offsets_usable (mi_FuncDecl m) src"
  shows "map rep_start (group_replacements format_Node src sm)
           = map (\<lambda>m. doc_start (mi_FuncDecl m)) (sm_Methods sm)"
    and "map rep_end (group_replacements format_Node src sm)
           = map (\<lambda>m. fd_End (mi_FuncDecl m)) (sm_Methods sm)"
proof -
  let ?blocks = "group_blocks format_Node src sm"
  have len: "length ?blocks = length (GetExpectedOrder sm)"
    using ok by (simp add: group_ok_expected_length group_blocks_def)
  have "map rep_start (group_replacements format_Node src sm)
          = map mb_StartPos (map fst (zip ?blocks (GetExpectedOrder sm)))"
    by (simp add: group_replacements_def case_prod_beta comp_def)
  also have "\<dots> = map mb_StartPos ?blocks"
    using len by simp
  also have "\<dots> = map (\<lambda>m. doc_start (mi_FuncDecl m)) (sm_Methods sm)"
    using usable by (simp add: group_blocks_def GetMethodBlock_usable)
  finally show "map rep_start (group_replacements format_Node src sm)
           = map (\<lambda>m. doc_start (mi_FuncDecl m)) (sm_Methods sm)" .
  have "map rep_end (group_replacements format_Node src sm)
          = map mb_EndPos (map fst (zip ?blocks (GetExpectedOrder sm)))"
    by (simp add: group_replacements_def case_prod_beta comp_def)
  also have "\<dots> = map mb_EndPos ?blocks"
    using len by simp
  also have "\<dots> = map (\<lambda>m. fd_End (mi_FuncDecl m)) (sm_Methods sm)"
    by (simp add: group_blocks_def)
  finally show "map rep_end (group_replacements format_Node src sm)
           = map (\<lambda>m. fd_End (mi_FuncDecl m)) (sm_Methods sm)" .
qed

lemma replacement_of_method:
  assumes "map rep_start reps = map (\<lambda>m. doc_start (mi_FuncDecl m)) ms"
    and "map rep_end reps = map (\<lambda>m. fd_End (mi_FuncDecl m)) ms"
    and "r \<in> set reps"
  shows "\<exists>m \<in> set ms. rep_start r = doc_start (mi_FuncDecl m) \<and> rep_end r = fd_End (mi_FuncDecl m)"
proof -
  from assms(3) obtain i where i: "i < length reps" "reps ! i = r"
    by (auto simp: in_set_conv_nth)
  have len: "length reps = length ms"
    using assms(1) by (metis length_map)
  have "rep_start r = doc_start (mi_FuncDecl (ms ! i))"
    using assms(1) i len by (metis nth_map)
  moreover have "rep_end r = fd_End (mi_FuncDecl (ms ! i))"
    using assms(2) i len by (metis nth_map)
  moreover have "ms ! i \<in> set ms"
    using i len by simp
  ultimately show ?thesis by blast
qed

lemma parsed_layout_same_start:
  assumes "parsed_layout file src"
    and "f \<in> set (func_decls file)" and "g \<in> set (func_decls file)"
    and "doc_start f = doc_start g"
  shows "fd_Pos f = fd_Pos g"
proof (rule ccontr)
  assume ne: "fd_Pos f \<noteq> fd_Pos g"
  have nf: "fd_Pos f < fd_End f" and ng: "fd_Pos g < fd_End g"
    using assms(1-3) by (simp_all add: parsed_layout_def)
  show False
  proof (cases "fd_Pos f < fd_Pos g")
    case True
    then have "fd_End f \<le> doc_start g"
      using assms(1-3) unfolding parsed_layout_def by blast
    then show False using doc_start_le [of f] nf assms(4) by linarith
  next
    case False
    then have "fd_Pos g < fd_Pos f" using ne by linarith
    then have "fd_End g \<le> doc_start f"
      using assms(1-3) unfolding parsed_layout_def by blast
    then show False using doc_start_le [of g] ng assms(4) by linarith
  qed
qed

lemma file_replacements_disjoint:
  assumes pl: "parsed_layout file src"
  shows "slots_disjoint (file_replacements format_Node src file) src"
proof -
  let ?needed = "filter (\<lambda>(name, sm). NeedsReordering sm) (CollectStructMethods file)"
  let ?reps = "file_replacements format_Node src file"
  let ?g = "\<lambda>m. doc_start (mi_FuncDecl m)"
  let ?all = "concat (map (\<lambda>e. sm_Methods (snd e)) ?needed)"
  have in_file: "mi_FuncDecl m \<in> set (func_decls file)"
    if "e \<in> set ?needed" "m \<in> set (sm_Methods (snd e))" for e m
    using that collected_methods_from_file [of "fst e" "snd e" "file" m] by simp
  have ok: "group_ok (snd e)" if "e \<in> set ?needed" for e
    using that collected_group_ok [of "fst e" "snd e" "file"] by simp
  have usable: "\<forall>m \<in> set (sm_Methods (snd e)). offsets_usable (mi_FuncDecl m) src"
    if "e \<in> set ?needed" for e
    using that in_file parsed_layout_usable [OF pl] by blast
  have starts: "map rep_start (group_replacements format_Node src (snd e))
                  = map ?g (sm_Methods (snd e))"
    and ends: "map rep_end (group_replacements format_Node src (snd e))
                  = map (\<lambda>m. fd_End (mi_FuncDecl m)) (sm_Methods (snd e))"
    if "e \<in> set ?needed" for e
    using group_replacements_ranges [OF ok [OF that] usable [OF that]] by simp_all
  have from_decl: "\<exists>f \<in> set (func_decls file). rep_start r = doc_start f \<and> rep_end r = fd_End f"
    if "r \<in> set ?reps" for r
  proof -
    from that obtain e where e: "e \<in> set ?needed"
      and r: "r \<in> set (group_replacements format_Node src (snd e))"
      by (auto simp: file_replacements_def)
    from replacement_of_method [OF starts [OF e] ends [OF e] r]
    obtain m where "m \<in> set (sm_Methods (snd e))"
      and "rep_start r = doc_start (mi_FuncDecl m)" "rep_end r = fd_End (mi_FuncDecl m)"
      by blast
    then show ?thesis using in_file [OF e] by blast
  qed
  have range: "0 \<le> rep_start r \<and> rep_start r < rep_end r \<and> rep_end r \<le> int (length src)"
    if "r \<in> set ?reps" for r
  proof -
    from from_decl [OF that] obtain f where f: "f \<in> set (func_decls file)"
      and r: "rep_start r = doc_start f" "rep_end r = fd_End f"
      by blast
    have "0 \<le> doc_start f \<and> fd_Pos f < fd_End f \<and> fd_End f \<le> int (length src)"
      using pl f by (simp add: parsed_layout_def)
    then show ?thesis using r doc_start_le [of f] by linarith
  qed
  have apart: "rep_end r \<le> rep_start r'"
    if "r \<in> set ?reps" "r' \<in> set ?reps" "rep_start r < rep_start r'" for r r'
  proof -
    from from_decl [OF that(1)] obtain f where f: "f \<in> set (func_decls file)"
      and r: "rep_start r = doc_start f" "rep_end r = fd_End f"
      by blast
    from from_decl [OF that(2)] obtain g where g: "g \<in> set (func_decls file)"
      and r': "rep_start r' = doc_start g" "rep_end r' = fd_End g"
      by blast
    show ?thesis
      using parsed_layout_order [OF pl f g] that(3) r r' by simp
  qed
  have dist: "distinct (map rep_start ?reps)"
  proof -
    have "map rep_start ?reps
            = concat (map (\<lambda>e. map rep_start (group_replacements format_Node src (snd e))) ?needed)"
      by (simp add: file_replacements_def map_concat comp_def case_prod_beta)
    also have "\<dots> = concat (map (\<lambda>e. map ?g (sm_Methods (snd e))) ?needed)"
      using starts by (metis (no_types, lifting) map_eq_conv)
    also have "\<dots> = map ?g ?all"
      by (simp add: map_concat comp_def)
    finally have eq: "map rep_start ?reps = map ?g ?all" .
    have sep: "groups_separate ?needed"
      using pl by (simp add: parsed_layout_def collected_groups_separate groups_separate_filter)
    have "distinct (concat (map (\<lambda>e. group_positions (snd e)) ?needed))"
    proof (rule separate_concat_distinct [OF sep])
      show "\<forall>e \<in> set ?needed. distinct (group_positions (snd e))
              \<and> set (group_positions (snd e)) \<subseteq> set (group_positions (snd e))"
        using sep unfolding groups_separate_def by blast
    qed
    then have dpos: "distinct (map mi_Pos ?all)"
      by (simp add: map_concat comp_def group_positions_def)
    have "distinct (map ?g ?all)"
    proof (rule distinct_map_transfer [OF dpos])
      fix a b assume a: "a \<in> set ?all" and b: "b \<in> set ?all" and same: "?g a = ?g b"
      from a obtain ea where ea: "ea \<in> set ?needed" "a \<in> set (sm_Methods (snd ea))"
        by auto
      from b obtain eb where eb: "eb \<in> set ?needed" "b \<in> set (sm_Methods (snd eb))"
        by auto
      have "method_ok a" "method_ok b"
        using ok [OF ea(1)] ea(2) ok [OF eb(1)] eb(2) by (simp_all add: group_ok_def list_all_iff)
      then have "mi_Pos a = fd_Pos (mi_FuncDecl a)" "mi_Pos b = fd_Pos (mi_FuncDecl b)"
        by (simp_all add: method_ok_fields(4))
      then show "mi_Pos a = mi_Pos b"
        using parsed_layout_same_start [OF pl in_file [OF ea] in_file [OF eb] same] by simp
    qed
    then show ?thesis by (simp only: eq)
  qed
  show ?thesis
    unfolding slots_disjoint_def
    using dist range apart by blast
qed

section \<open>The reorder engine on a parsed file\<close>

lemmas fixer_defs =
  ProcessFile_def fixFile_def ReorderStructMethods_def buildStructRegion_def
  buildSlotReplacements_def byName_of_def GetMethodBlock_def slice_def TrimRight_newline_def
  sort_descending_def spliceBytes_def HasViolations_def file_replacements_def
  group_replacements_def group_blocks_def

lemma byName_of_snoc:
  "byName_of (blocks @ [b]) = (byName_of blocks)(mb_Name b \<mapsto> mb_RawText b)"
  by (simp add: byName_of_def)

lemma byName_of_last:
  "byName_of blocks n =
     (if filter (\<lambda>b. mb_Name b = n) blocks = [] then None
      else Some (mb_RawText (last (filter (\<lambda>b. mb_Name b = n) blocks))))"
proof (induction blocks rule: rev_induct)
  case Nil
  then show ?case by (simp add: byName_of_def)
next
  case (snoc b blocks)
  then show ?case by (simp add: byName_of_snoc)
qed

lemma group_replacements_length:
  "group_ok sm \<Longrightarrow> length (group_replacements format_Node src sm) = length (sm_Methods sm)"
  by (simp add: group_replacements_def group_blocks_def group_ok_expected_length)

lemma group_replacements_nth:
  assumes "group_ok sm" and "i < length (sm_Methods sm)"
  shows "group_replacements format_Node src sm ! i =
           \<lparr> rep_start = mb_StartPos (GetMethodBlock format_Node (mi_FuncDecl (sm_Methods sm ! i)) src),
             rep_end = mb_EndPos (GetMethodBlock format_Node (mi_FuncDecl (sm_Methods sm ! i)) src),
             rep_text = (case byName_of (group_blocks format_Node src sm)
                                (mi_Name (GetExpectedOrder sm ! i)) of
                           Some text \<Rightarrow> text | None \<Rightarrow> []) \<rparr>"
  using assms
  by (simp add: group_replacements_def group_blocks_def group_ok_expected_length)

lemma violations_need_reordering:
  assumes "rp_Violations (Detect cfg file filePath) \<noteq> []"
  shows "list_ex (\<lambda>(name, sm). NeedsReordering sm) (CollectStructMethods file)"
  using assms Detect_nothing_to_reorder by blast

lemma fixFile_splices:
  assumes "list_ex (\<lambda>(name, sm). NeedsReordering sm) (CollectStructMethods file)"
  shows "fixFile format_Node cfg file src report
           = map_option Inr
               (apply_splices src (sort_descending (file_replacements format_Node src file)))"
proof -
  let ?needs = "\<lambda>(name, sm). NeedsReordering sm"
  let ?needed = "filter ?needs (CollectStructMethods file)"
  have ne: "?needed \<noteq> []"
    using assms by (auto simp: list_ex_iff filter_empty_conv)
  then have ex: "list_ex ?needs ?needed"
    by (cases ?needed) (auto simp: list_ex_iff dest: filter_eq_ConsD)
  have ok: "\<forall>e \<in> set ?needed. group_ok (snd e)"
    using collected_group_ok by fastforce
  have "collect_replacements format_Node src ?needed
          = Inr (concat (map (\<lambda>(name, sm). group_replacements format_Node src sm)
                           (filter ?needs ?needed)))"
    using ok by (rule collect_replacements_closed)
  then have "collect_replacements format_Node src ?needed
               = Inr (file_replacements format_Node src file)"
    by (simp add: file_replacements_def)
  then have "ReorderStructMethods format_Node src ?needed
               = map_option Inr
                   (apply_splices src (sort_descending (file_replacements format_Node src file)))"
    using ex by (simp add: ReorderStructMethods_def)
  then show ?thesis
    using ne by (simp add: fixFile_def Let_def)
qed

lemma ProcessFile_fixed:
  assumes "ParseFile src = Inr file"
    and "ProcessFile ParseFile format_Node cfg filePath (Inr src) = Some res"
    and "r_Fixed res"
  shows "Fix cfg \<and> rp_Violations (Detect cfg file filePath) \<noteq> []
         \<and> (\<exists>out. fixFile format_Node cfg file src (Detect cfg file filePath) = Some (Inr out)
                \<and> r_FixedContent res = Some out)"
  using assms
  by (auto simp: ProcessFile_def HasViolations_def Let_def
      split: sum.splits option.splits if_splits)

lemma ProcessFile_fixing:
  assumes "ParseFile src = Inr file" and "Fix cfg"
    and "rp_Violations (Detect cfg file filePath) \<noteq> []"
    and "fixFile format_Node cfg file src (Detect cfg file filePath) = Some (Inr out)"
  shows "ProcessFile ParseFile format_Node cfg filePath (Inr src)
           = Some \<lparr> r_FilePath = filePath,
                    r_Violations = length (rp_Violations (Detect cfg file filePath)),
                    r_Fixed = True, r_OriginalContent = Some src,
                    r_FixedContent = Some out, r_Error = None \<rparr>"
  using assms by (simp add: ProcessFile_def HasViolations_def Let_def)

lemma replacement_is_block:
  assumes pl: "parsed_layout file src"
    and r: "r \<in> set (file_replacements format_Node src file)"
  shows "\<exists>name sm m. (name, sm) \<in> set (CollectStructMethods file) \<and> NeedsReordering sm
           \<and> m \<in> set (sm_Methods sm)
           \<and> rep_start r = doc_start (mi_FuncDecl m) \<and> rep_end r = fd_End (mi_FuncDecl m)"
proof -
  from r obtain name sm where e: "(name, sm) \<in> set (CollectStructMethods file)"
    and needs: "NeedsReordering sm"
    and rg: "r \<in> set (group_replacements format_Node src sm)"
    by (auto simp: file_replacements_def)
  have ok: "group_ok sm" using e by (rule collected_group_ok)
  have usable: "\<forall>m \<in> set (sm_Methods sm). offsets_usable (mi_FuncDecl m) src"
    using collected_methods_from_file [OF e] parsed_layout_usable [OF pl] by blast
  from replacement_of_method [OF group_replacements_ranges [OF ok usable] rg]
  show ?thesis using e needs by blast
qed

section \<open>Gap preservation\<close>

text \<open>
  Claim C4. For every file that \<^verbatim>\<open>ProcessFile\<close> returns as fixed (the parser having given
  its function declarations non-overlapping blocks within the buffer): every replacement
  covers exactly the block of one member function, from its doc-extended start to its end,
  so none covers a byte between the slots; every byte of the original outside the
  replaced slots, and so every byte outside all member function blocks, is found in the
  fixed output at its offset shifted by the length changes of the slots that end at or
  before it; and the length of the output is that of the original plus all length changes.
\<close>

theorem fixed_file_keeps_gaps:
  assumes "ParseFile src = Inr file" and "parsed_layout file src"
    and "ProcessFile ParseFile format_Node cfg filePath (Inr src) = Some res"
    and "r_Fixed res"
  shows "\<exists>out. r_FixedContent res = Some out
           \<and> int (length out)
               = int (length src) + sum_list (map delta (file_replacements format_Node src file))
           \<and> (\<forall>r \<in> set (file_replacements format_Node src file).
                  \<exists>name sm m. (name, sm) \<in> set (CollectStructMethods file)
                    \<and> m \<in> set (sm_Methods sm)
                    \<and> rep_start r = doc_start (mi_FuncDecl m)
                    \<and> rep_end r = fd_End (mi_FuncDecl m))
           \<and> (\<forall>x. 0 \<le> x \<and> x < int (length src)
                   \<and> (\<forall>r \<in> set (file_replacements format_Node src file).
                         x < rep_start r \<or> rep_end r \<le> x) \<longrightarrow>
                  0 \<le> x + shift (file_replacements format_Node src file) x
                  \<and> x + shift (file_replacements format_Node src file) x < int (length out)
                  \<and> out ! nat (x + shift (file_replacements format_Node src file) x)
                      = src ! nat x)
           \<and> (\<forall>x. 0 \<le> x \<and> x < int (length src)
                   \<and> (\<forall>name sm m. (name, sm) \<in> set (CollectStructMethods file)
                         \<and> m \<in> set (sm_Methods sm) \<longrightarrow>
                         x < doc_start (mi_FuncDecl m) \<or> fd_End (mi_FuncDecl m) \<le> x) \<longrightarrow>
                  out ! nat (x + shift (file_replacements format_Node src file) x)
                    = src ! nat x)"
proof -
  let ?reps = "file_replacements format_Node src file"
  from ProcessFile_fixed [OF assms(1,3,4)] obtain out where
    viol: "rp_Violations (Detect cfg file filePath) \<noteq> []"
    and fixd: "fixFile format_Node cfg file src (Detect cfg file filePath) = Some (Inr out)"
    and content: "r_FixedContent res = Some out"
    by blast
  have "fixFile format_Node cfg file src (Detect cfg file filePath)
          = map_option Inr (apply_splices src (sort_descending ?reps))"
    using violations_need_reordering [OF viol] by (rule fixFile_splices)
  then have run: "apply_splices src (sort_descending ?reps) = Some out"
    using fixd by (cases "apply_splices src (sort_descending ?reps)") simp_all
  from apply_splices_disjoint [OF file_replacements_disjoint [OF assms(2)], of format_Node]
  obtain out' where
    H: "apply_splices src (sort_descending ?reps) = Some out'
        \<and> int (length out') = int (length src) + sum_list (map delta ?reps)
        \<and> (\<forall>x. 0 \<le> x \<and> x < int (length src)
                \<and> (\<forall>r \<in> set ?reps. x < rep_start r \<or> rep_end r \<le> x) \<longrightarrow>
               0 \<le> x + shift ?reps x \<and> x + shift ?reps x < int (length out')
               \<and> out' ! nat (x + shift ?reps x) = src ! nat x)
        \<and> (\<forall>r \<in> set ?reps.
               0 \<le> rep_start r + shift ?reps (rep_start r)
               \<and> rep_start r + shift ?reps (rep_start r) + int (length (rep_text r))
                   \<le> int (length out')
               \<and> (\<forall>i. 0 \<le> i \<and> i < int (length (rep_text r)) \<longrightarrow>
                      out' ! nat (rep_start r + shift ?reps (rep_start r) + i)
                        = rep_text r ! nat i))"
    by (elim exE)
  have same: "out' = out"
    using H [THEN conjunct1] run by simp
  note len = H [THEN conjunct2, THEN conjunct1, unfolded same]
  note gaps = H [THEN conjunct2, THEN conjunct2, THEN conjunct1, unfolded same]
  have blocks: "\<forall>r \<in> set ?reps.
                  \<exists>name sm m. (name, sm) \<in> set (CollectStructMethods file)
                    \<and> m \<in> set (sm_Methods sm)
                    \<and> rep_start r = doc_start (mi_FuncDecl m)
                    \<and> rep_end r = fd_End (mi_FuncDecl m)"
    using replacement_is_block [OF assms(2)] by blast
  have outside: "out ! nat (x + shift ?reps x) = src ! nat x"
    if x: "0 \<le> x" "x < int (length src)"
      and free: "\<forall>name sm m. (name, sm) \<in> set (CollectStructMethods file)
                   \<and> m \<in> set (sm_Methods sm) \<longrightarrow>
                   x < doc_start (mi_FuncDecl m) \<or> fd_End (mi_FuncDecl m) \<le> x"
    for x
  proof -
    have "\<forall>r \<in> set ?reps. x < rep_start r \<or> rep_end r \<le> x"
    proof
      fix r assume "r \<in> set ?reps"
      then obtain name sm m where "(name, sm) \<in> set (CollectStructMethods file)"
        "m \<in> set (sm_Methods sm)" "rep_start r = doc_start (mi_FuncDecl m)"
        "rep_end r = fd_End (mi_FuncDecl m)"
        using blocks by blast
      then show "x < rep_start r \<or> rep_end r \<le> x"
        using free by metis
    qed
    then show ?thesis using gaps x by blast
  qed
  have outside_all: "\<forall>x. 0 \<le> x \<and> x < int (length src)
                   \<and> (\<forall>name sm m. (name, sm) \<in> set (CollectStructMethods file)
                         \<and> m \<in> set (sm_Methods sm) \<longrightarrow>
                         x < doc_start (mi_FuncDecl m) \<or> fd_End (mi_FuncDecl m) \<le> x) \<longrightarrow>
                  out ! nat (x + shift ?reps x) = src ! nat x"
    using outside by (intro allI impI) (elim conjE)
  show ?thesis
    by (rule exI [of _ out]) (intro conjI content len blocks gaps outside_all)
qed

theorem fixed_file_keeps_gaps_witness:
  "parsed_layout file_ab src_ab
   \<and> ProcessFile (\<lambda>bytes. Inr file_ab) print_node cfg_fix ''ab.go'' (Inr src_ab)
       = Some \<lparr> r_FilePath = ''ab.go'', r_Violations = 1, r_Fixed = True,
                r_OriginalContent = Some src_ab, r_FixedContent = Some fixed_ab,
                r_Error = None \<rparr>
   \<and> file_replacements print_node src_ab file_ab
       = [\<lparr>rep_start = 32, rep_end = 54, rep_text = ''func (a A) Run() {}''\<rparr>,
          \<lparr>rep_start = 77, rep_end = 96, rep_text = ''func (a A) helper() {}''\<rparr>,
          \<lparr>rep_start = 55, rep_end = 76, rep_text = ''func (b B) NewB() {}''\<rparr>,
          \<lparr>rep_start = 97, rep_end = 117, rep_text = ''func (b B) reset() {}''\<rparr>]
   \<and> shift (file_replacements print_node src_ab file_ab) 76 = - 4
   \<and> fixed_ab ! nat (76 + shift (file_replacements print_node src_ab file_ab) 76)
       = src_ab ! nat 76
   \<and> int (length fixed_ab)
       = int (length src_ab) + sum_list (map delta (file_replacements print_node src_ab file_ab))"
proof -
  let ?res = "\<lparr> r_FilePath = ''ab.go'', r_Violations = 1, r_Fixed = True,
                r_OriginalContent = Some src_ab, r_FixedContent = Some fixed_ab,
                r_Error = None \<rparr>"
  have pl: "parsed_layout file_ab src_ab"
    by (simp add: parsed_layout_def doc_start_def file_ab_def src_ab_def)
  have run: "ProcessFile (\<lambda>bytes. Inr file_ab) print_node cfg_fix ''ab.go'' (Inr src_ab)
               = Some ?res"
    by (simp add: fixer_defs detector_defs example_defs src_ab_def fixed_ab_def)
  have reps: "file_replacements print_node src_ab file_ab
       = [\<lparr>rep_start = 32, rep_end = 54, rep_text = ''func (a A) Run() {}''\<rparr>,
          \<lparr>rep_start = 77, rep_end = 96, rep_text = ''func (a A) helper() {}''\<rparr>,
          \<lparr>rep_start = 55, rep_end = 76, rep_text = ''func (b B) NewB() {}''\<rparr>,
          \<lparr>rep_start = 97, rep_end = 117, rep_text = ''func (b B) reset() {}''\<rparr>]"
    by (simp add: fixer_defs detector_defs example_defs src_ab_def)
  have sh: "shift (file_replacements print_node src_ab file_ab) 76 = - 4"
    by (simp add: reps shift_def delta_def)
  have free: "\<forall>r \<in> set (file_replacements print_node src_ab file_ab).
                (76::int) < rep_start r \<or> rep_end r \<le> 76"
    by (simp add: reps)
  have bounds: "(0::int) \<le> 76 \<and> 76 < int (length src_ab)"
    by (simp add: src_ab_def)
  have parse: "(\<lambda>bytes. Inr file_ab) src_ab = Inr file_ab"
    by simp
  have fixed: "r_Fixed ?res" by simp
  from fixed_file_keeps_gaps [OF parse pl run fixed]
  have "int (length fixed_ab)
          = int (length src_ab) + sum_list (map delta (file_replacements print_node src_ab file_ab))
        \<and> fixed_ab ! nat (76 + shift (file_replacements print_node src_ab file_ab) 76)
            = src_ab ! nat 76"
    using free bounds by auto
  then show ?thesis
    using pl run reps sh by simp
qed


section \<open>Reordering every group that is out of order\<close>

lemma expected_text_replacement:
  assumes "group_ok sm" and "i < length (sm_Methods sm)"
  shows "rep_text (group_replacements format_Node src sm ! i) = expected_text format_Node src sm i"
    and "rep_start (group_replacements format_Node src sm ! i)
           = mb_StartPos (GetMethodBlock format_Node (mi_FuncDecl (sm_Methods sm ! i)) src)"
    and "rep_end (group_replacements format_Node src sm ! i)
           = mb_EndPos (GetMethodBlock format_Node (mi_FuncDecl (sm_Methods sm ! i)) src)"
  using group_replacements_nth [OF assms, of format_Node src]
  by (simp_all add: expected_text_def)

lemma group_replacement_in_file:
  assumes "(name, sm) \<in> set (CollectStructMethods file)" and "NeedsReordering sm"
    and "i < length (sm_Methods sm)"
  shows "group_replacements format_Node src sm ! i \<in> set (file_replacements format_Node src file)"
proof -
  have "group_ok sm" using assms(1) by (rule collected_group_ok)
  then have "i < length (group_replacements format_Node src sm)"
    using assms(3) by (simp add: group_replacements_length)
  then have "group_replacements format_Node src sm ! i
               \<in> set (group_replacements format_Node src sm)"
    by simp
  then show ?thesis
    using assms(1,2) by (force simp: file_replacements_def)
qed

text \<open>
  Claim C10. When fixing is requested and the file has a violation, \<^verbatim>\<open>ProcessFile\<close>
  returns a fixed file in which every group whose method names are not in the expected
  order is reordered, whether or not the group itself has a violation: for every slot
  \<open>i\<close> of such a group the output holds, at the shifted start of the block of the \<open>i\<close>-th
  method, the text that belongs to the \<open>i\<close>-th method of the expected order.
\<close>

theorem every_disordered_group_reordered:
  assumes "ParseFile src = Inr file" and "parsed_layout file src"
    and "Fix cfg" and "rp_Violations (Detect cfg file filePath) \<noteq> []"
  shows "\<exists>out. ProcessFile ParseFile format_Node cfg filePath (Inr src)
                 = Some \<lparr> r_FilePath = filePath,
                          r_Violations = length (rp_Violations (Detect cfg file filePath)),
                          r_Fixed = True, r_OriginalContent = Some src,
                          r_FixedContent = Some out, r_Error = None \<rparr>
           \<and> (\<forall>name sm i. (name, sm) \<in> set (CollectStructMethods file) \<and> NeedsReordering sm
                   \<and> i < length (sm_Methods sm) \<longrightarrow>
                  slice out
                    (doc_start (mi_FuncDecl (sm_Methods sm ! i))
                       + shift (file_replacements format_Node src file)
                           (doc_start (mi_FuncDecl (sm_Methods sm ! i))))
                    (doc_start (mi_FuncDecl (sm_Methods sm ! i))
                       + shift (file_replacements format_Node src file)
                           (doc_start (mi_FuncDecl (sm_Methods sm ! i)))
                       + int (length (expected_text format_Node src sm i)))
                  = expected_text format_Node src sm i)"
proof -
  let ?reps = "file_replacements format_Node src file"
  from apply_splices_disjoint [OF file_replacements_disjoint [OF assms(2)], of format_Node]
  obtain out where
    H: "apply_splices src (sort_descending ?reps) = Some out
        \<and> int (length out) = int (length src) + sum_list (map delta ?reps)
        \<and> (\<forall>x. 0 \<le> x \<and> x < int (length src)
                \<and> (\<forall>r \<in> set ?reps. x < rep_start r \<or> rep_end r \<le> x) \<longrightarrow>
               0 \<le> x + shift ?reps x \<and> x + shift ?reps x < int (length out)
               \<and> out ! nat (x + shift ?reps x) = src ! nat x)
        \<and> (\<forall>r \<in> set ?reps.
               0 \<le> rep_start r + shift ?reps (rep_start r)
               \<and> rep_start r + shift ?reps (rep_start r) + int (length (rep_text r))
                   \<le> int (length out)
               \<and> (\<forall>i. 0 \<le> i \<and> i < int (length (rep_text r)) \<longrightarrow>
                      out ! nat (rep_start r + shift ?reps (rep_start r) + i)
                        = rep_text r ! nat i))"
    by (elim exE)
  note run = H [THEN conjunct1]
  note slots = H [THEN conjunct2, THEN conjunct2, THEN conjunct2]
  have fixd: "fixFile format_Node cfg file src (Detect cfg file filePath) = Some (Inr out)"
    using fixFile_splices [OF violations_need_reordering [OF assms(4)]] run by simp
  have result: "ProcessFile ParseFile format_Node cfg filePath (Inr src)
                 = Some \<lparr> r_FilePath = filePath,
                          r_Violations = length (rp_Violations (Detect cfg file filePath)),
                          r_Fixed = True, r_OriginalContent = Some src,
                          r_FixedContent = Some out, r_Error = None \<rparr>"
    using assms(1,3,4) fixd by (rule ProcessFile_fixing)
  have slot: "slice out
                (doc_start (mi_FuncDecl (sm_Methods sm ! i))
                   + shift ?reps (doc_start (mi_FuncDecl (sm_Methods sm ! i))))
                (doc_start (mi_FuncDecl (sm_Methods sm ! i))
                   + shift ?reps (doc_start (mi_FuncDecl (sm_Methods sm ! i)))
                   + int (length (expected_text format_Node src sm i)))
              = expected_text format_Node src sm i"
    if e: "(name, sm) \<in> set (CollectStructMethods file)" and needs: "NeedsReordering sm"
      and i: "i < length (sm_Methods sm)" for name sm i
  proof -
    let ?r = "group_replacements format_Node src sm ! i"
    have ok: "group_ok sm" using e by (rule collected_group_ok)
    have mem: "?r \<in> set ?reps"
      using e needs i by (rule group_replacement_in_file)
    have "mi_FuncDecl (sm_Methods sm ! i) \<in> set (func_decls file)"
      using collected_methods_from_file [OF e] i by simp
    then have "offsets_usable (mi_FuncDecl (sm_Methods sm ! i)) src"
      using parsed_layout_usable [OF assms(2)] by blast
    then have start: "rep_start ?r = doc_start (mi_FuncDecl (sm_Methods sm ! i))"
      using expected_text_replacement(2) [OF ok i, of format_Node src]
      by (simp add: GetMethodBlock_usable)
    have rtext: "rep_text ?r = expected_text format_Node src sm i"
      using ok i by (rule expected_text_replacement(1))
    from slots mem have
      "0 \<le> rep_start ?r + shift ?reps (rep_start ?r)
       \<and> rep_start ?r + shift ?reps (rep_start ?r) + int (length (rep_text ?r))
           \<le> int (length out)
       \<and> (\<forall>i. 0 \<le> i \<and> i < int (length (rep_text ?r)) \<longrightarrow>
              out ! nat (rep_start ?r + shift ?reps (rep_start ?r) + i) = rep_text ?r ! nat i)"
      by (rule bspec)
    then have "slice out (rep_start ?r + shift ?reps (rep_start ?r))
                 (rep_start ?r + shift ?reps (rep_start ?r) + int (length (rep_text ?r)))
               = rep_text ?r"
      by (intro slice_eqI) simp_all
    then show ?thesis
      by (simp only: start rtext)
  qed
  have all: "\<forall>name sm i. (name, sm) \<in> set (CollectStructMethods file) \<and> NeedsReordering sm
                   \<and> i < length (sm_Methods sm) \<longrightarrow>
                  slice out
                    (doc_start (mi_FuncDecl (sm_Methods sm ! i))
                       + shift ?reps (doc_start (mi_FuncDecl (sm_Methods sm ! i))))
                    (doc_start (mi_FuncDecl (sm_Methods sm ! i))
                       + shift ?reps (doc_start (mi_FuncDecl (sm_Methods sm ! i)))
                       + int (length (expected_text format_Node src sm i)))
                  = expected_text format_Node src sm i"
    using slot by (intro allI impI) (elim conjE)
  show ?thesis
    by (rule exI [of _ out]) (intro conjI result all)
qed

theorem every_disordered_group_reordered_witness:
  "ProcessFile (\<lambda>bytes. Inr file_ab) print_node cfg_fix ''ab.go'' (Inr src_ab)
     = Some \<lparr> r_FilePath = ''ab.go'', r_Violations = 1, r_Fixed = True,
              r_OriginalContent = Some src_ab, r_FixedContent = Some fixed_ab,
              r_Error = None \<rparr>
   \<and> (''B'', group_B) \<in> set (CollectStructMethods file_ab)
   \<and> map mi_Name (sm_Methods group_B) = [''reset'', ''NewB'']
   \<and> map mi_Name (GetExpectedOrder group_B) = [''NewB'', ''reset'']
   \<and> NeedsReordering group_B
   \<and> group_violations cfg_fix group_B = []
   \<and> expected_text print_node src_ab group_B 0 = ''func (b B) NewB() {}''
   \<and> slice fixed_ab 52 72 = ''func (b B) NewB() {}''"
proof -
  have pl: "parsed_layout file_ab src_ab"
    by (simp add: parsed_layout_def doc_start_def file_ab_def src_ab_def)
  have run: "ProcessFile (\<lambda>bytes. Inr file_ab) print_node cfg_fix ''ab.go'' (Inr src_ab)
     = Some \<lparr> r_FilePath = ''ab.go'', r_Violations = 1, r_Fixed = True,
              r_OriginalContent = Some src_ab, r_FixedContent = Some fixed_ab,
              r_Error = None \<rparr>"
    by (simp add: fixer_defs detector_defs example_defs src_ab_def fixed_ab_def)
  have viol: "rp_Violations (Detect cfg_fix file_ab ''ab.go'') \<noteq> []"
    by (simp add: detector_defs example_defs)
  have fixing: "Fix cfg_fix" by (simp add: cfg_fix_def)
  have parse: "(\<lambda>bytes. Inr file_ab) src_ab = Inr file_ab" by simp
  have mem: "(''B'', group_B) \<in> set (CollectStructMethods file_ab)"
    by (simp add: group_B_def detector_defs example_defs)
  have names: "map mi_Name (sm_Methods group_B) = [''reset'', ''NewB'']
               \<and> map mi_Name (GetExpectedOrder group_B) = [''NewB'', ''reset'']"
    by (simp add: group_B_def detector_defs example_defs)
  have needs: "NeedsReordering group_B"
    by (simp add: group_B_def detector_defs example_defs)
  have quiet: "group_violations cfg_fix group_B = []"
    by (simp add: group_violations_def constructor_violation_def exported_violation_def
        List.map_filter_simps group_B_def detector_defs example_defs)
  have slot0: "0 < length (sm_Methods group_B)
               \<and> doc_start (mi_FuncDecl (sm_Methods group_B ! 0)) = 55"
    by (simp add: doc_start_def group_B_def detector_defs example_defs)
  have tx: "expected_text print_node src_ab group_B 0 = ''func (b B) NewB() {}''"
    by (simp add: expected_text_def group_B_def fixer_defs detector_defs example_defs src_ab_def)
  have sh: "shift (file_replacements print_node src_ab file_ab) 55 = - 3"
    by (simp add: shift_def delta_def fixer_defs detector_defs example_defs src_ab_def)
  from every_disordered_group_reordered [OF parse pl fixing viol, of print_node]
  obtain out where
    res: "ProcessFile (\<lambda>bytes. Inr file_ab) print_node cfg_fix ''ab.go'' (Inr src_ab)
            = Some \<lparr> r_FilePath = ''ab.go'',
                     r_Violations = length (rp_Violations (Detect cfg_fix file_ab ''ab.go'')),
                     r_Fixed = True, r_OriginalContent = Some src_ab,
                     r_FixedContent = Some out, r_Error = None \<rparr>"
    and slots: "\<And>name sm i. (name, sm) \<in> set (CollectStructMethods file_ab) \<Longrightarrow>
                  NeedsReordering sm \<Longrightarrow> i < length (sm_Methods sm) \<Longrightarrow>
                  slice out
                    (doc_start (mi_FuncDecl (sm_Methods sm ! i))
                       + shift (file_replacements print_node src_ab file_ab)
                           (doc_start (mi_FuncDecl (sm_Methods sm ! i))))
                    (doc_start (mi_FuncDecl (sm_Methods sm ! i))
                       + shift (file_replacements print_node src_ab file_ab)
                           (doc_start (mi_FuncDecl (sm_Methods sm ! i)))
                       + int (length (expected_text print_node src_ab sm i)))
                  = expected_text print_node src_ab sm i"
    by blast
  have out: "out = fixed_ab"
    using res run by simp
  have "slice fixed_ab 52 72 = ''func (b B) NewB() {}''"
    using slots [OF mem needs, of 0] slot0 tx sh by (simp add: out)
  then show ?thesis
    using run mem names needs quiet tx by simp
qed

section \<open>Slot replacements\<close>

lemma group_block_names:
  assumes "group_ok sm"
  shows "map mb_Name (group_blocks format_Node src sm) = map mi_Name (sm_Methods sm)"
proof -
  have "\<forall>m \<in> set (sm_Methods sm). method_ok m"
    using assms by (simp add: group_ok_def list_all_iff)
  then show ?thesis
    by (simp add: group_blocks_def method_ok_fields(3))
qed

lemma expected_text_last:
  assumes ok: "group_ok sm" and i: "i < length (sm_Methods sm)"
  shows "expected_text format_Node src sm i
           = mb_RawText (last (filter (\<lambda>b. mb_Name b = mi_Name (GetExpectedOrder sm ! i))
                                 (group_blocks format_Node src sm)))"
proof -
  let ?e = "GetExpectedOrder sm ! i"
  let ?blocks = "group_blocks format_Node src sm"
  have "?e \<in> set (GetExpectedOrder sm)"
    using ok i by (simp add: group_ok_expected_length)
  then have e: "?e \<in> set (sm_Methods sm)"
    using ok by (simp add: group_ok_expected_set)
  then have "method_ok ?e"
    using ok by (simp add: group_ok_def list_all_iff)
  then have n: "mi_Name ?e = mb_Name (GetMethodBlock format_Node (mi_FuncDecl ?e) src)"
    by (simp add: method_ok_fields(3))
  have "GetMethodBlock format_Node (mi_FuncDecl ?e) src \<in> set ?blocks"
    using e by (simp add: group_blocks_def)
  then have "byName_of ?blocks (mi_Name ?e) \<noteq> None"
    unfolding n by (rule byName_of_defined)
  then show ?thesis
    by (simp add: expected_text_def byName_of_last split: if_splits)
qed

lemma expected_text_distinct:
  assumes ok: "group_ok sm" and i: "i < length (sm_Methods sm)"
    and d: "distinct (map mi_Name (sm_Methods sm))"
  shows "expected_text format_Node src sm i
           = mb_RawText (GetMethodBlock format_Node (mi_FuncDecl (GetExpectedOrder sm ! i)) src)"
proof -
  let ?e = "GetExpectedOrder sm ! i"
  let ?blocks = "group_blocks format_Node src sm"
  let ?b = "GetMethodBlock format_Node (mi_FuncDecl ?e) src"
  have "?e \<in> set (GetExpectedOrder sm)"
    using ok i by (simp add: group_ok_expected_length)
  then have e: "?e \<in> set (sm_Methods sm)"
    using ok by (simp add: group_ok_expected_set)
  then have "method_ok ?e"
    using ok by (simp add: group_ok_def list_all_iff)
  then have n: "mi_Name ?e = mb_Name ?b"
    by (simp add: method_ok_fields(3))
  have mem: "?b \<in> set ?blocks"
    using e by (simp add: group_blocks_def)
  have "distinct (map mb_Name ?blocks)"
    using d group_block_names [OF ok] by simp
  from byName_of_distinct [OF this mem] show ?thesis
    by (simp add: expected_text_def n)
qed

text \<open>
  What the engine builds for a group that is reordered: one replacement per slot \<open>i\<close>,
  with the range of the block of the \<open>i\<close>-th method and with the text that the lookup by
  name returns for the name of the \<open>i\<close>-th method of the expected order. The lookup is a
  map from names to texts, filled block by block, so it returns the raw text of the last
  block of the group with that name; when the method names of the group are pairwise
  different this is the raw text of the block of that very method. The replacements of
  all groups are what the splicing loop applies, in descending order of start offset,
  strictly descending in a parsed file.
\<close>

lemma group_slot_replacements:
  assumes "(name, sm) \<in> set (CollectStructMethods file)" and "NeedsReordering sm"
  shows "\<exists>region reps.
           buildStructRegion format_Node sm src = Inr region
           \<and> buildSlotReplacements region = Inr reps
           \<and> length reps = length (sm_Methods sm)
           \<and> (\<forall>i < length (sm_Methods sm).
                  rep_start (reps ! i)
                    = mb_StartPos (GetMethodBlock format_Node (mi_FuncDecl (sm_Methods sm ! i)) src)
                  \<and> rep_end (reps ! i)
                    = mb_EndPos (GetMethodBlock format_Node (mi_FuncDecl (sm_Methods sm ! i)) src)
                  \<and> rep_text (reps ! i)
                    = mb_RawText (last (filter (\<lambda>b. mb_Name b = mi_Name (GetExpectedOrder sm ! i))
                                          (group_blocks format_Node src sm)))
                  \<and> (distinct (map mi_Name (sm_Methods sm)) \<longrightarrow>
                        rep_text (reps ! i)
                          = mb_RawText (GetMethodBlock format_Node
                                          (mi_FuncDecl (GetExpectedOrder sm ! i)) src)))
           \<and> set reps \<subseteq> set (file_replacements format_Node src file)
           \<and> fixFile format_Node cfg file src report
               = map_option Inr
                   (apply_splices src (sort_descending (file_replacements format_Node src file)))
           \<and> sorted_wrt (\<lambda>a b. rep_start a \<ge> rep_start b)
                (sort_descending (file_replacements format_Node src file))
           \<and> (parsed_layout file src \<longrightarrow>
                 sorted_wrt (\<lambda>a b. rep_start a > rep_start b)
                   (sort_descending (file_replacements format_Node src file)))"
proof -
  let ?reps = "group_replacements format_Node src sm"
  have ok: "group_ok sm" using assms(1) by (rule collected_group_ok)
  from group_replacements_built [OF ok NeedsReordering_nonempty [OF assms(2)], of format_Node src]
  obtain region where region: "buildStructRegion format_Node sm src = Inr region"
    and built: "buildSlotReplacements region = Inr ?reps"
    by blast
  have len: "length ?reps = length (sm_Methods sm)"
    using ok by (rule group_replacements_length)
  have slot: "\<forall>i < length (sm_Methods sm).
                  rep_start (?reps ! i)
                    = mb_StartPos (GetMethodBlock format_Node (mi_FuncDecl (sm_Methods sm ! i)) src)
                  \<and> rep_end (?reps ! i)
                    = mb_EndPos (GetMethodBlock format_Node (mi_FuncDecl (sm_Methods sm ! i)) src)
                  \<and> rep_text (?reps ! i)
                    = mb_RawText (last (filter (\<lambda>b. mb_Name b = mi_Name (GetExpectedOrder sm ! i))
                                          (group_blocks format_Node src sm)))
                  \<and> (distinct (map mi_Name (sm_Methods sm)) \<longrightarrow>
                        rep_text (?reps ! i)
                          = mb_RawText (GetMethodBlock format_Node
                                          (mi_FuncDecl (GetExpectedOrder sm ! i)) src))"
  proof (intro allI impI conjI)
    fix i assume i: "i < length (sm_Methods sm)"
    show "rep_start (?reps ! i)
            = mb_StartPos (GetMethodBlock format_Node (mi_FuncDecl (sm_Methods sm ! i)) src)"
      using ok i by (rule expected_text_replacement(2))
    show "rep_end (?reps ! i)
            = mb_EndPos (GetMethodBlock format_Node (mi_FuncDecl (sm_Methods sm ! i)) src)"
      using ok i by (rule expected_text_replacement(3))
    show "rep_text (?reps ! i)
            = mb_RawText (last (filter (\<lambda>b. mb_Name b = mi_Name (GetExpectedOrder sm ! i))
                                  (group_blocks format_Node src sm)))"
      using expected_text_replacement(1) [OF ok i] expected_text_last [OF ok i] by simp
    show "rep_text (?reps ! i)
            = mb_RawText (GetMethodBlock format_Node (mi_FuncDecl (GetExpectedOrder sm ! i)) src)"
      if "distinct (map mi_Name (sm_Methods sm))"
      using expected_text_replacement(1) [OF ok i] expected_text_distinct [OF ok i that]
      by simp
  qed
  have sub: "set ?reps \<subseteq> set (file_replacements format_Node src file)"
    using assms by (force simp: file_replacements_def)
  have ex: "list_ex (\<lambda>(name, sm). NeedsReordering sm) (CollectStructMethods file)"
    using assms by (force simp: list_ex_iff)
  note applied = fixFile_splices [OF ex, of format_Node cfg src report]
  note desc = sort_descending_sorted [of "file_replacements format_Node src file"]
  have strict: "parsed_layout file src \<longrightarrow>
                 sorted_wrt (\<lambda>a b. rep_start a > rep_start b)
                   (sort_descending (file_replacements format_Node src file))"
  proof
    assume "parsed_layout file src"
    then have "slots_disjoint (file_replacements format_Node src file) src"
      by (rule file_replacements_disjoint)
    then have "distinct (map rep_start (file_replacements format_Node src file))"
      by (simp add: slots_disjoint_def)
    then show "sorted_wrt (\<lambda>a b. rep_start a > rep_start b)
                 (sort_descending (file_replacements format_Node src file))"
      by (rule sort_descending_strict)
  qed
  show ?thesis
    by (rule exI [of _ region], rule exI [of _ ?reps])
      (intro conjI region built len slot sub applied desc strict)
qed

lemma group_slot_replacements_example:
  "(''S'', group_three) \<in> set (CollectStructMethods file_three)
   \<and> NeedsReordering group_three
   \<and> parsed_layout file_three src_three
   \<and> map mi_Name (sm_Methods group_three) = [''helper'', ''Run'', ''NewS'']
   \<and> map mi_Name (GetExpectedOrder group_three) = [''NewS'', ''Run'', ''helper'']
   \<and> (\<exists>region. buildStructRegion print_node group_three src_three = Inr region
         \<and> buildSlotReplacements region
             = Inr [\<lparr>rep_start = 16, rep_end = 38, rep_text = ''func (s S) NewS() {}''\<rparr>,
                    \<lparr>rep_start = 39, rep_end = 58, rep_text = ''func (s S) Run() {}''\<rparr>,
                    \<lparr>rep_start = 59, rep_end = 79, rep_text = ''func (s S) helper() {}''\<rparr>])
   \<and> sorted_wrt (\<lambda>a b. rep_start a > rep_start b)
        (sort_descending (file_replacements print_node src_three file_three))
   \<and> sort_descending (file_replacements print_node src_three file_three)
       = [\<lparr>rep_start = 59, rep_end = 79, rep_text = ''func (s S) helper() {}''\<rparr>,
          \<lparr>rep_start = 39, rep_end = 58, rep_text = ''func (s S) Run() {}''\<rparr>,
          \<lparr>rep_start = 16, rep_end = 38, rep_text = ''func (s S) NewS() {}''\<rparr>]"
proof -
  have mem: "(''S'', group_three) \<in> set (CollectStructMethods file_three)"
    by (simp add: group_three_def detector_defs example_defs)
  have needs: "NeedsReordering group_three"
    by (simp add: group_three_def detector_defs example_defs)
  have pl: "parsed_layout file_three src_three"
    by (simp add: parsed_layout_def doc_start_def example_defs src_three_def)
  have names: "map mi_Name (sm_Methods group_three) = [''helper'', ''Run'', ''NewS'']
               \<and> map mi_Name (GetExpectedOrder group_three) = [''NewS'', ''Run'', ''helper'']"
    by (simp add: group_three_def detector_defs example_defs)
  have built: "\<exists>region. buildStructRegion print_node group_three src_three = Inr region
         \<and> buildSlotReplacements region
             = Inr [\<lparr>rep_start = 16, rep_end = 38, rep_text = ''func (s S) NewS() {}''\<rparr>,
                    \<lparr>rep_start = 39, rep_end = 58, rep_text = ''func (s S) Run() {}''\<rparr>,
                    \<lparr>rep_start = 59, rep_end = 79, rep_text = ''func (s S) helper() {}''\<rparr>]"
    by (simp add: group_three_def fixer_defs detector_defs example_defs src_three_def)
  have order: "sort_descending (file_replacements print_node src_three file_three)
       = [\<lparr>rep_start = 59, rep_end = 79, rep_text = ''func (s S) helper() {}''\<rparr>,
          \<lparr>rep_start = 39, rep_end = 58, rep_text = ''func (s S) Run() {}''\<rparr>,
          \<lparr>rep_start = 16, rep_end = 38, rep_text = ''func (s S) NewS() {}''\<rparr>]"
    by (simp add: fixer_defs detector_defs example_defs src_three_def)
  have "sorted_wrt (\<lambda>a b. rep_start a > rep_start b)
          (sort_descending (file_replacements print_node src_three file_three))"
    using group_slot_replacements [OF mem needs, of print_node src_three] pl by blast
  then show ?thesis
    using mem needs pl names built order by blast
qed

text \<open>
  Claim C5. The code departs from the claim for a group with two methods of the same
  name, which the parser accepts. The struct \<^verbatim>\<open>S\<close> has the methods \<^verbatim>\<open>a\<close>, \<^verbatim>\<open>B\<close> and a
  second \<^verbatim>\<open>a\<close> with another body. The expected order is \<^verbatim>\<open>B\<close>, the first \<^verbatim>\<open>a\<close>, the
  second \<^verbatim>\<open>a\<close>, so slot 1 (the range of \<^verbatim>\<open>B\<close>) is to receive the text of the first
  \<^verbatim>\<open>a\<close>. The lookup by name holds one text per name, so slot 1 receives the text of the
  second \<^verbatim>\<open>a\<close>: the fixed file contains the second method twice and the body of the first
  is lost.
\<close>

theorem duplicate_method_name_slot_text:
  "(''S'', group_dup) \<in> set (CollectStructMethods file_dup)
   \<and> NeedsReordering group_dup
   \<and> map mi_FuncDecl (GetExpectedOrder group_dup) = [fn_B, fn_a1, fn_a2]
   \<and> mb_RawText (GetMethodBlock print_node fn_a1 src_dup) = ''func (s S) a() {}''
   \<and> collect_replacements print_node src_dup (CollectStructMethods file_dup)
       = Inr [\<lparr>rep_start = 16, rep_end = 33, rep_text = ''func (s S) B() {}''\<rparr>,
              \<lparr>rep_start = 34, rep_end = 51, rep_text = ''func (s S) a() {x()}''\<rparr>,
              \<lparr>rep_start = 52, rep_end = 72, rep_text = ''func (s S) a() {x()}''\<rparr>]
   \<and> ReorderStructMethods print_node src_dup (CollectStructMethods file_dup)
       = Some (Inr ''type S struct{}\<newline>func (s S) B() {}\<newline>func (s S) a() {x()}\<newline>func (s S) a() {x()}\<newline>'')"
  by (simp add: group_dup_def fixer_defs detector_defs example_defs src_dup_def)

section \<open>The second pass\<close>

subsection \<open>The methods of a collected group, in closed form\<close>






subsection \<open>A file arranged like the original has no violations\<close>









subsection \<open>Where the splicing moves a block\<close>












subsection \<open>What the parser reads in the moved blocks\<close>















end
